theory Spec2Isabelle
  imports
    Complex_Main
    "HOL-Library.Sublist"
    "HOL-Library.AList"
    "HOL-Library.Char_ord"
    "HOL-Library.List_Lexorder"
begin

section \<open>FlowGuard: validation gate, classifier, sanitizer and stability score\<close>

text \<open>
  A shallow embedding of the deterministic core of FlowGuard:
  \<^verbatim>\<open>services/stability_score.py\<close>, \<^verbatim>\<open>services/test_executor.py\<close>,
  \<^verbatim>\<open>services/validation_service.py\<close> and the failure-enrichment route of
  \<^verbatim>\<open>routers/schema_routes.py\<close> with \<^verbatim>\<open>services/agent2_service.py\<close>.

  Python strings are modelled as \<^typ>\<open>string\<close> (ASCII text): \<^verbatim>\<open>a in b\<close> on strings is
  \<^const>\<open>sublist\<close>, \<^verbatim>\<open>b.startswith(a)\<close> is \<^const>\<open>prefix\<close>, and \<^verbatim>\<open>str.lower\<close> /
  \<^verbatim>\<open>str.upper\<close> change the letters A-Z / a-z only.
\<close>

subsection \<open>Strings\<close>

definition lower_char :: "char \<Rightarrow> char" where
  "lower_char c =
     (let n = (of_char c :: nat) in if 65 \<le> n \<and> n \<le> 90 then char_of (n + 32) else c)"

definition upper_char :: "char \<Rightarrow> char" where
  "upper_char c =
     (let n = (of_char c :: nat) in if 97 \<le> n \<and> n \<le> 122 then char_of (n - 32) else c)"

definition lower :: "string \<Rightarrow> string" where
  "lower s = map lower_char s"

definition upper :: "string \<Rightarrow> string" where
  "upper s = map upper_char s"

text \<open>\<^verbatim>\<open>str(n)\<close> for a Python int: decimal digits, with a leading minus sign.\<close>

definition digit_char :: "nat \<Rightarrow> char" where
  "digit_char d = char_of (48 + d)"

fun str_nat :: "nat \<Rightarrow> string" where
  "str_nat n = (if n < 10 then [digit_char n] else str_nat (n div 10) @ [digit_char (n mod 10)])"

declare str_nat.simps [simp del]

definition str_int :: "int \<Rightarrow> string" where
  "str_int i = (if i < 0 then CHR ''-'' # str_nat (nat (- i)) else str_nat (nat i))"

subsection \<open>JSON values as Python sees them\<close>

text \<open>
  The value \<^verbatim>\<open>json.loads\<close> returns: \<^verbatim>\<open>None\<close>, \<^verbatim>\<open>bool\<close>, \<^verbatim>\<open>int\<close>, \<^verbatim>\<open>float\<close> (a finite
  float is a rational number), \<^verbatim>\<open>str\<close>, \<^verbatim>\<open>list\<close> and \<^verbatim>\<open>dict\<close>. A dict keeps its
  insertion order, so it is an association list (with distinct keys).
\<close>

datatype json =
    JNull
  | JBool bool
  | JInt int
  | JFloat rat
  | JStr string
  | JList "json list"
  | JDict "(string \<times> json) list"

type_synonym pydict = "(string \<times> json) list"

text \<open>Truthiness (\<^verbatim>\<open>if x:\<close>).\<close>

fun truthy :: "json \<Rightarrow> bool" where
  "truthy JNull = False"
| "truthy (JBool b) = b"
| "truthy (JInt n) = (n \<noteq> 0)"
| "truthy (JFloat r) = (r \<noteq> 0)"
| "truthy (JStr s) = (s \<noteq> [])"
| "truthy (JList xs) = (xs \<noteq> [])"
| "truthy (JDict kvs) = (kvs \<noteq> [])"

text \<open>\<^verbatim>\<open>d.get(k, default)\<close> and \<^verbatim>\<open>k in d\<close> for a dict.\<close>

definition py_get :: "pydict \<Rightarrow> string \<Rightarrow> json \<Rightarrow> json" where
  "py_get d k dflt = (case map_of d k of Some v \<Rightarrow> v | None \<Rightarrow> dflt)"

definition has_key :: "pydict \<Rightarrow> string \<Rightarrow> bool" where
  "has_key d k = (map_of d k \<noteq> None)"

subsection \<open>Execution results\<close>

datatype TestResult = PASSED | FAILED | ERROR | TIMEOUT

text \<open>
  The dict built by \<^verbatim>\<open>TestExecutor.execute_test_case\<close>. The keys \<^verbatim>\<open>response_time_ms\<close>
  and \<^verbatim>\<open>headers\<close> are read by none of the functions below and are left out.
\<close>

record exec_result =
  test_case :: pydict
  status_code :: "int option"
  response_body :: string
  result :: TestResult
  failure_reason :: "string option"

subsection \<open>Stability score (\<^verbatim>\<open>services/stability_score.py\<close>)\<close>

text \<open>
  The argument of \<^verbatim>\<open>calculate_stability_score\<close>: the keys \<^verbatim>\<open>all_results\<close> and
  \<^verbatim>\<open>failures_to_analyze\<close> are read with default \<^verbatim>\<open>[]\<close>, so a missing key is the
  empty list.
\<close>

record test_results =
  all_results :: "exec_result list"
  failures_to_analyze :: "exec_result list"

text \<open>
  The body of the loop over \<^verbatim>\<open>results_to_check\<close>, on the three counters
  \<^verbatim>\<open>(num_5xx_errors, num_invalid_success, num_timeouts)\<close>: an \<^verbatim>\<open>if/elif\<close> for the
  first counter, then two more \<^verbatim>\<open>if\<close> statements.
\<close>

definition count_result :: "exec_result \<Rightarrow> int \<times> int \<times> int \<Rightarrow> int \<times> int \<times> int" where
  "count_result r cs =
     (case cs of (num_5xx_errors, num_invalid_success, num_timeouts) \<Rightarrow>
        let reason = (case failure_reason r of None \<Rightarrow> [] | Some s \<Rightarrow> s);
            code = status_code r;
            result_type = result r;
            num_5xx_errors =
              (if (case code of None \<Rightarrow> False | Some c \<Rightarrow> c \<noteq> 0 \<and> c \<ge> 500)
               then num_5xx_errors + 1
               else if sublist ''5xx'' reason \<or> sublist ''Server Error'' reason
               then num_5xx_errors + 1
               else num_5xx_errors);
            num_invalid_success =
              (if sublist ''Invalid success'' reason
                  \<or> sublist ''bad input was accepted'' (lower reason)
               then num_invalid_success + 1
               else num_invalid_success);
            num_timeouts =
              (if sublist ''timeout'' (lower reason) \<or> result_type = TIMEOUT
               then num_timeouts + 1
               else num_timeouts)
        in (num_5xx_errors, num_invalid_success, num_timeouts))"

text \<open>
  \<^verbatim>\<open>round(score, 2)\<close>: to the nearest multiple of 1/100, a tie going to the even one.
  The score is a float that only ever holds whole numbers, which rationals represent
  exactly.
\<close>

definition round2 :: "rat \<Rightarrow> rat" where
  "round2 x =
     (let y = x * 100; f = \<lfloor>y\<rfloor>; d = y - of_int f in
      of_int (if d < 1 / 2 then f else if 1 / 2 < d then f + 1
              else if even f then f else f + 1) / 100)"

definition results_to_check :: "test_results \<Rightarrow> exec_result list" where
  "results_to_check tr = (if all_results tr \<noteq> [] then all_results tr else failures_to_analyze tr)"

definition calculate_stability_score :: "test_results \<Rightarrow> rat" where
  "calculate_stability_score tr =
     (case fold count_result (results_to_check tr) (0, 0, 0) of
        (num_5xx_errors, num_invalid_success, num_timeouts) \<Rightarrow>
          let score = 100;
              score = score - of_int (5 * num_5xx_errors);
              score = score - of_int (3 * num_invalid_success);
              score = score - of_int (2 * num_timeouts);
              score = max 0 (min 100 score)
          in round2 score)"

text \<open>
  The three conditions of the score calculator, each as a predicate on one result:
  the result counts as a 5xx error, as an invalid success, as a timeout.
\<close>

definition reason_of :: "exec_result \<Rightarrow> string" where
  "reason_of r = (case failure_reason r of None \<Rightarrow> [] | Some s \<Rightarrow> s)"

definition is_5xx :: "exec_result \<Rightarrow> bool" where
  "is_5xx r \<longleftrightarrow>
     (case status_code r of None \<Rightarrow> False | Some c \<Rightarrow> c \<ge> 500)
     \<or> sublist ''5xx'' (reason_of r) \<or> sublist ''Server Error'' (reason_of r)"

definition is_invalid_success :: "exec_result \<Rightarrow> bool" where
  "is_invalid_success r \<longleftrightarrow>
     sublist ''Invalid success'' (reason_of r)
     \<or> sublist ''bad input was accepted'' (lower (reason_of r))"

definition is_timeout :: "exec_result \<Rightarrow> bool" where
  "is_timeout r \<longleftrightarrow> sublist ''timeout'' (lower (reason_of r)) \<or> result r = TIMEOUT"

text \<open>How many results of a run meet each condition.\<close>

definition num_5xx :: "exec_result list \<Rightarrow> int" where
  "num_5xx rs = int (length (filter is_5xx rs))"

definition num_invalid_success :: "exec_result list \<Rightarrow> int" where
  "num_invalid_success rs = int (length (filter is_invalid_success rs))"

definition num_timeouts :: "exec_result list \<Rightarrow> int" where
  "num_timeouts rs = int (length (filter is_timeout rs))"

text \<open>Sample results and runs.\<close>

definition mk_result :: "int option \<Rightarrow> TestResult \<Rightarrow> string option \<Rightarrow> exec_result" where
  "mk_result c t fr =
     \<lparr>test_case = [], status_code = c, response_body = [], result = t, failure_reason = fr\<rparr>"

definition run_85 :: test_results where
  "run_85 = \<lparr>all_results =
      [mk_result (Some 500) FAILED (Some ''5xx Server Error (500)''),
       mk_result (Some 200) PASSED None,
       mk_result (Some 503) FAILED (Some ''5xx Server Error (503)''),
       mk_result (Some 200) FAILED (Some ''Invalid success - bad input was accepted''),
       mk_result None TIMEOUT (Some ''Request timeout''),
       mk_result (Some 404) PASSED None],
     failures_to_analyze = []\<rparr>"

definition run_floor :: test_results where
  "run_floor = \<lparr>all_results =
      replicate 25 (mk_result (Some 500) FAILED (Some ''5xx Server Error (500)''))
      @ replicate 75 (mk_result (Some 200) PASSED None),
     failures_to_analyze = []\<rparr>"

subsection \<open>Classifier (\<^verbatim>\<open>TestExecutor._analyze_response\<close>)\<close>

definition stack_trace_indicators :: "string list" where
  "stack_trace_indicators =
     [''Traceback'', ''at line'', ''File '' @ [CHR 0x22], ''Exception:'',
      ''java.lang.'', ''System.Exception'', ''stack trace'',
      ''error occurred'', ''internal server error'']"

definition detects_stack_trace :: "string \<Rightarrow> bool" where
  "detects_stack_trace body =
     (let response_lower = lower body in
      list_ex (\<lambda>indicator. sublist (lower indicator) response_lower) stack_trace_indicators)"

text \<open>
  The rules in the order of the source; each \<^verbatim>\<open>return\<close> is a branch. The test case is the
  dict of the plan, read with \<^verbatim>\<open>.get\<close>; \<^verbatim>\<open>response_time\<close> is passed and never read.
\<close>

definition analyze_response :: "int \<Rightarrow> string \<Rightarrow> rat \<Rightarrow> pydict \<Rightarrow> TestResult \<times> string option" where
  "analyze_response code body response_time tc =
     (let test_type = py_get tc ''test_type'' (JStr []);
          expected_failure = py_get tc ''expected_failure'' (JBool False) in
      if code \<ge> 500 then
        (FAILED, Some (''5xx Server Error ('' @ str_int code @ '')''))
      else if truthy expected_failure \<and> code < 400 then
        (FAILED, Some ''Invalid success - bad input was accepted'')
      else if detects_stack_trace body then
        (FAILED, Some ''Stack trace or sensitive info leaked'')
      else if test_type = JStr ''sql_injection'' \<and> code < 400 then
        (FAILED, Some ''SQL injection attempt succeeded'')
      else if test_type = JStr ''xss'' \<and> code < 400 then
        (FAILED, Some ''XSS attempt succeeded'')
      else (PASSED, None))"

subsection \<open>Sanitizer (\<^verbatim>\<open>TestExecutor._sanitize_response\<close>)\<close>

definition sensitive_keys :: "string list" where
  "sensitive_keys =
     [''password'', ''token'', ''secret'', ''key'', ''authorization'',
      ''credit_card'', ''ssn'', ''phone'', ''email'', ''address'']"

definition is_sensitive :: "string \<Rightarrow> bool" where
  "is_sensitive key = list_ex (\<lambda>sensitive. sublist sensitive (lower key)) sensitive_keys"

definition REDACTED :: json where
  "REDACTED = JStr ''***REDACTED***''"

fun is_container :: "json \<Rightarrow> bool" where
  "is_container (JDict kvs) = True"
| "is_container (JList xs) = True"
| "is_container j = False"

text \<open>
  The inner function \<^verbatim>\<open>sanitize_dict\<close> is recursive, and Python bounds the depth of
  calls: a call that would exceed the recursion limit raises \<^verbatim>\<open>RecursionError\<close>. The
  model carries the number of frames still available. A call of \<^verbatim>\<open>sanitize_dict\<close> takes
  one frame; while a dict is visited, the generator expression given to \<^verbatim>\<open>any\<close> takes
  one more frame for each key, which it gives back; the list comprehension takes
  \<open>cf\<close> frames, inside which the items are sanitized (one frame up to CPython 3.11,
  none from 3.12 on, where comprehensions are inlined). The result is \<open>None\<close> when the
  exception is raised.

  For a dict the function visits every key once and assigns to \<^verbatim>\<open>obj[key]\<close>, which
  keeps the position of the key: a map over the items. For a list it builds the list of
  the sanitized items; anything else is returned as it is.
\<close>

fun sanitize_dict :: "nat \<Rightarrow> nat \<Rightarrow> json \<Rightarrow> json option" where
  "sanitize_dict cf 0 obj = None"
| "sanitize_dict cf (Suc n) (JDict kvs) =
     (if kvs \<noteq> [] \<and> n = 0 then None
      else map_option JDict
             (those (map (\<lambda>(key, v).
                       if is_sensitive key then Some (key, REDACTED)
                       else if is_container v
                       then map_option (Pair key) (sanitize_dict cf n v)
                       else Some (key, v)) kvs)))"
| "sanitize_dict cf (Suc n) (JList xs) =
     (if n < cf then None
      else map_option JList (those (map (sanitize_dict cf (n - cf)) xs)))"
| "sanitize_dict cf (Suc n) obj = Some obj"

text \<open>
  \<^verbatim>\<open>_sanitize_response\<close>, with the library functions \<^verbatim>\<open>json.loads\<close> and
  \<^verbatim>\<open>json.dumps(_, indent=2)\<close> as parameters (\<open>None\<close> when they raise) and \<open>frames\<close> the
  number of frames available where \<^verbatim>\<open>sanitize_dict\<close> is called. The bare
  \<^verbatim>\<open>except\<close> catches every exception raised inside the \<^verbatim>\<open>try\<close>, by \<^verbatim>\<open>json.loads\<close>, by
  \<^verbatim>\<open>sanitize_dict\<close> or by \<^verbatim>\<open>json.dumps\<close>, and returns the first 1000 characters of
  the body as they are.
\<close>

definition sanitize_response ::
  "(string \<Rightarrow> json option) \<Rightarrow> (json \<Rightarrow> string option) \<Rightarrow> nat \<Rightarrow> nat \<Rightarrow> string \<Rightarrow> string" where
  "sanitize_response loads dumps cf frames body =
     (if body = [] then []
      else case loads body of
             None \<Rightarrow> take 1000 body
           | Some data \<Rightarrow>
               (case sanitize_dict cf frames data of
                  None \<Rightarrow> take 1000 body
                | Some sanitized \<Rightarrow>
                    (case dumps sanitized of
                       None \<Rightarrow> take 1000 body
                     | Some out \<Rightarrow> out)))"

text \<open>
  The redaction as the specification words it, without the bound on the depth: walk
  the value; the value of every key whose name contains a sensitive keyword is replaced
  by the marker, the structure is otherwise kept.
\<close>

fun redacted_form :: "json \<Rightarrow> json" where
  "redacted_form (JDict kvs) =
     JDict (map (\<lambda>(key, v).
               if is_sensitive key then (key, REDACTED)
               else if is_container v then (key, redacted_form v)
               else (key, v)) kvs)"
| "redacted_form (JList xs) = JList (map redacted_form xs)"
| "redacted_form obj = obj"

text \<open>The frames a call of \<^verbatim>\<open>sanitize_dict\<close> on a value needs.\<close>

fun frames_needed :: "nat \<Rightarrow> json \<Rightarrow> nat" where
  "frames_needed cf (JDict kvs) =
     Suc (foldr max (map (\<lambda>(key, v).
                            if is_sensitive key then 1
                            else if is_container v then frames_needed cf v
                            else 1) kvs) 0)"
| "frames_needed cf (JList xs) = Suc (cf + foldr max (map (frames_needed cf) xs) 0)"
| "frames_needed cf obj = 1"

text \<open>
  Positions inside a JSON value: a path of dict keys and list indices, and the value
  found at a path.
\<close>

datatype step = Key string | Idx nat

fun lookup :: "step list \<Rightarrow> json \<Rightarrow> json option" where
  "lookup [] j = Some j"
| "lookup (Key k # p) (JDict kvs) = (case map_of kvs k of None \<Rightarrow> None | Some v \<Rightarrow> lookup p v)"
| "lookup (Idx i # p) (JList xs) = (if i < length xs then lookup p (xs ! i) else None)"
| "lookup (s # p) j = None"

fun sensitive_step :: "step \<Rightarrow> bool" where
  "sensitive_step (Key k) = is_sensitive k"
| "sensitive_step (Idx i) = False"

text \<open>No sensitive key is left with a value other than the marker, at any depth.\<close>

fun all_redacted :: "json \<Rightarrow> bool" where
  "all_redacted (JDict kvs) =
     list_all (\<lambda>(key, v). if is_sensitive key then v = REDACTED else all_redacted v) kvs"
| "all_redacted (JList xs) = list_all all_redacted xs"
| "all_redacted j = True"

definition sample_body :: json where
  "sample_body =
     JDict [(''id'', JInt 1),
            (''users'', JList [JDict [(''name'', JStr ''ann''),
                                      (''Password'', JStr ''hunter2''),
                                      (''profile'', JDict [(''api_key'', JStr ''k''),
                                                           (''age'', JInt 30)])]])]"

text \<open>
  A response body that is valid JSON: an object with a password inside 600 nested
  lists, the text \<^verbatim>\<open>[[...[{"password": "hunter2"}]...]]\<close>, and the value
  \<^verbatim>\<open>json.loads\<close> returns for it.
\<close>

fun nest :: "nat \<Rightarrow> json \<Rightarrow> json" where
  "nest 0 j = j"
| "nest (Suc n) j = JList [nest n j]"

definition deep_value :: json where
  "deep_value = nest 600 (JDict [(''password'', JStr ''hunter2'')])"

definition deep_body :: string where
  "deep_body =
     replicate 600 CHR ''['' @
     [CHR ''{'', CHR 0x22] @ ''password'' @ [CHR 0x22] @ '': '' @ [CHR 0x22] @ ''hunter2''
       @ [CHR 0x22, CHR ''}''] @
     replicate 600 CHR '']''"

definition deep_loads :: "string \<Rightarrow> json option" where
  "deep_loads s = (if s = deep_body then Some deep_value else None)"

subsection \<open>Validation gate (\<^verbatim>\<open>services/validation_service.py\<close>)\<close>

text \<open>
  The plan is the untyped dict that arrives from the Planner, so every operation on a
  value inside it is modelled for every kind of value, and the Python exceptions that
  an unexpected kind raises are results of their own.
\<close>

datatype py_exn = TypeError | AttributeError

text \<open>
  The entries of the returned error list. Each constructor stands for one message
  template of the source, its arguments are the values the f-string interpolates:
  \<^item> \<open>MissingRequiredField f\<close>: "Missing required field: f"
  \<^item> \<open>SchemaRejectedByAI\<close>: "Schema rejected by AI"
  \<^item> \<open>InvalidStatus v\<close>: "Invalid status: v. Expected 'ok'"
  \<^item> \<open>SchemaNotList\<close>: "normalized_schema must be a list"
  \<^item> \<open>SchemaEmpty\<close>: "normalized_schema cannot be empty"
  \<^item> \<open>EndpointNotDict i\<close>: "Endpoint at index i must be a dictionary"
  \<^item> \<open>EndpointMissingEndpoint i\<close>: "Endpoint at index i missing 'endpoint'"
  \<^item> \<open>EndpointPathNotString i\<close>: "Endpoint path must be string at index i"
  \<^item> \<open>EndpointPathNoSlash p\<close>: "Endpoint path must start with '/': p"
  \<^item> \<open>EndpointMissingMethod i\<close>: "Endpoint at index i missing 'method'"
  \<^item> \<open>InvalidMethodAt i m\<close>: "Invalid HTTP method at index i: m"
  \<^item> \<open>MissingRequestBody e m\<close>: "Endpoint e (m) missing 'request_body'"
  \<^item> \<open>TestCasesNotList\<close>: "test_cases must be a list"
  \<^item> \<open>TestCasesEmpty\<close>: "test_cases cannot be empty"
  \<^item> \<open>TestCaseNotDict i\<close>: "Test case at index i must be a dictionary"
  \<^item> \<open>TestCaseMissing i f\<close>: "Test case at index i missing 'f'"
  \<^item> \<open>InvalidTestType i v\<close>: "Invalid test_type at index i: v"
  \<^item> \<open>InvalidMethodInTestCase i m\<close>: "Invalid HTTP method in test case i: m"
  \<^item> \<open>NonExistentEndpoint i e\<close>: "Test case i references non-existent endpoint: e"
  \<^item> \<open>ErrorsFieldNotList\<close>: "errors field must be a list"
\<close>

datatype verror =
    MissingRequiredField string
  | SchemaRejectedByAI
  | InvalidStatus json
  | SchemaNotList
  | SchemaEmpty
  | EndpointNotDict nat
  | EndpointMissingEndpoint nat
  | EndpointPathNotString nat
  | EndpointPathNoSlash string
  | EndpointMissingMethod nat
  | InvalidMethodAt nat string
  | MissingRequestBody json json
  | TestCasesNotList
  | TestCasesEmpty
  | TestCaseNotDict nat
  | TestCaseMissing nat string
  | InvalidTestType nat json
  | InvalidMethodInTestCase nat string
  | NonExistentEndpoint nat json
  | ErrorsFieldNotList

definition required_fields :: "string list" where
  "required_fields = [''status'', ''normalized_schema'', ''test_cases'', ''errors'']"

definition http_methods :: "string list" where
  "http_methods = [''GET'', ''POST'', ''PUT'', ''DELETE'', ''PATCH'', ''HEAD'', ''OPTIONS'']"

definition required_test_fields :: "string list" where
  "required_test_fields = [''endpoint'', ''method'', ''test_type'', ''expected_failure'']"

definition valid_test_types :: "string list" where
  "valid_test_types =
     [''missing_field'', ''wrong_type'', ''boundary_values'',
      ''malformed_json'', ''sql_injection'', ''xss'',
      ''rate_limit'', ''auth_bypass'', ''timeout'', ''invalid_auth'']"

text \<open>
  Python equality between the values a set can hold: \<^verbatim>\<open>bool\<close>, \<^verbatim>\<open>int\<close> and
  \<^verbatim>\<open>float\<close> compare by their number (\<^verbatim>\<open>True == 1 == 1.0\<close>), everything else by kind and
  content. Lists and dicts are unhashable.
\<close>

fun num_val :: "json \<Rightarrow> rat option" where
  "num_val (JBool b) = Some (if b then 1 else 0)"
| "num_val (JInt n) = Some (of_int n)"
| "num_val (JFloat r) = Some r"
| "num_val j = None"

definition py_eq :: "json \<Rightarrow> json \<Rightarrow> bool" where
  "py_eq a b =
     (case (num_val a, num_val b) of
        (Some x, Some y) \<Rightarrow> x = y
      | (None, None) \<Rightarrow> a = b
      | _ \<Rightarrow> False)"

fun hashable :: "json \<Rightarrow> bool" where
  "hashable (JList xs) = False"
| "hashable (JDict kvs) = False"
| "hashable j = True"

text \<open>\<^verbatim>\<open>for x in v\<close>: the items of a list, the keys of a dict, the characters of a string.\<close>

fun py_iter :: "json \<Rightarrow> py_exn + json list" where
  "py_iter (JList xs) = Inr xs"
| "py_iter (JDict kvs) = Inr (map (\<lambda>kv. JStr (fst kv)) kvs)"
| "py_iter (JStr s) = Inr (map (\<lambda>c. JStr [c]) s)"
| "py_iter j = Inl TypeError"

text \<open>\<^verbatim>\<open>'endpoint' in v\<close>: a key of a dict, an item of a list, a substring of a string.\<close>

fun contains_endpoint :: "json \<Rightarrow> py_exn + bool" where
  "contains_endpoint (JDict d) = Inr (has_key d ''endpoint'')"
| "contains_endpoint (JList xs) = Inr (JStr ''endpoint'' \<in> set xs)"
| "contains_endpoint (JStr s) = Inr (sublist ''endpoint'' s)"
| "contains_endpoint j = Inl TypeError"

text \<open>
  The check of one item of \<^verbatim>\<open>normalized_schema\<close> (the body of the first loop): the
  errors it appends and the item after \<^verbatim>\<open>endpoint['method'] = method\<close>.
  \<^verbatim>\<open>.upper()\<close> on a method that is not a string raises.
\<close>

definition check_request_body :: "pydict \<Rightarrow> verror list" where
  "check_request_body d =
     (if py_get d ''method'' JNull \<in> set [JStr ''POST'', JStr ''PUT'', JStr ''PATCH'']
         \<and> \<not> has_key d ''request_body''
      then [MissingRequestBody (py_get d ''endpoint'' JNull) (py_get d ''method'' JNull)]
      else [])"

definition check_endpoint :: "nat \<Rightarrow> json \<Rightarrow> py_exn + (verror list \<times> json)" where
  "check_endpoint idx endpoint =
     (case endpoint of
        JDict d \<Rightarrow>
          (let errs1 =
                 (case map_of d ''endpoint'' of
                    None \<Rightarrow> [EndpointMissingEndpoint idx]
                  | Some (JStr endpoint_path) \<Rightarrow>
                      if \<not> prefix ''/'' endpoint_path
                      then [EndpointPathNoSlash endpoint_path] else []
                  | Some _ \<Rightarrow> [EndpointPathNotString idx])
           in case map_of d ''method'' of
                None \<Rightarrow>
                  Inr (errs1 @ [EndpointMissingMethod idx] @ check_request_body d, JDict d)
              | Some (JStr m) \<Rightarrow>
                  (let method = upper m;
                       errs2 = (if method \<notin> set http_methods
                                then [InvalidMethodAt idx method] else []);
                       d' = AList.update ''method'' (JStr method) d
                   in Inr (errs1 @ errs2 @ check_request_body d', JDict d'))
              | Some _ \<Rightarrow> Inl AttributeError)
      | _ \<Rightarrow> Inr ([EndpointNotDict idx], endpoint))"

text \<open>The check of one item of \<^verbatim>\<open>test_cases\<close> (the body of the second loop).\<close>

definition check_test :: "nat \<Rightarrow> json \<Rightarrow> py_exn + (verror list \<times> json)" where
  "check_test idx test =
     (case test of
        JDict t \<Rightarrow>
          (let errs1 = map (TestCaseMissing idx)
                         (filter (\<lambda>field. \<not> has_key t field) required_test_fields);
               errs2 =
                 (case map_of t ''test_type'' of
                    None \<Rightarrow> []
                  | Some v \<Rightarrow>
                      if v \<notin> set (map JStr valid_test_types)
                      then [InvalidTestType idx v] else [])
           in case map_of t ''method'' of
                None \<Rightarrow> Inr (errs1 @ errs2, JDict t)
              | Some (JStr m) \<Rightarrow>
                  (let method = upper m;
                       errs3 = (if method \<notin> set http_methods
                                then [InvalidMethodInTestCase idx method] else [])
                   in Inr (errs1 @ errs2 @ errs3,
                           JDict (AList.update ''method'' (JStr method) t)))
              | Some _ \<Rightarrow> Inl AttributeError)
      | _ \<Rightarrow> Inr ([TestCaseNotDict idx], test))"

text \<open>
  \<^verbatim>\<open>for idx, item in enumerate(items)\<close>: the errors of all items in order and the items
  after the loop; an exception ends the loop.
\<close>

fun for_enumerate ::
  "(nat \<Rightarrow> json \<Rightarrow> py_exn + (verror list \<times> json)) \<Rightarrow> nat \<Rightarrow> json list
     \<Rightarrow> py_exn + (verror list \<times> json list)" where
  "for_enumerate body idx [] = Inr ([], [])"
| "for_enumerate body idx (item # items) =
     (case body idx item of
        Inl exn \<Rightarrow> Inl exn
      | Inr (errs, item') \<Rightarrow>
          (case for_enumerate body (Suc idx) items of
             Inl exn \<Rightarrow> Inl exn
           | Inr (errs', items') \<Rightarrow> Inr (errs @ errs', item' # items')))"

definition check_schema :: "json \<Rightarrow> py_exn + (verror list \<times> json)" where
  "check_schema normalized_schema =
     (case normalized_schema of
        JList xs \<Rightarrow>
          if xs = [] then Inr ([SchemaEmpty], normalized_schema)
          else (case for_enumerate check_endpoint 0 xs of
                  Inl exn \<Rightarrow> Inl exn
                | Inr (errs, xs') \<Rightarrow> Inr (errs, JList xs'))
      | _ \<Rightarrow> Inr ([SchemaNotList], normalized_schema))"

definition check_tests :: "json \<Rightarrow> py_exn + (verror list \<times> json)" where
  "check_tests test_cases =
     (case test_cases of
        JList xs \<Rightarrow>
          if xs = [] then Inr ([TestCasesEmpty], test_cases)
          else (case for_enumerate check_test 0 xs of
                  Inl exn \<Rightarrow> Inl exn
                | Inr (errs, xs') \<Rightarrow> Inr (errs, JList xs'))
      | _ \<Rightarrow> Inr ([TestCasesNotList], test_cases))"

text \<open>
  Step 4. The set \<^verbatim>\<open>schema_endpoints\<close> is the list of the values added to it;
  \<^verbatim>\<open>endpoint['endpoint']\<close> needs a dict and \<^verbatim>\<open>.add\<close> a hashable value.
\<close>

fun add_endpoints :: "json list \<Rightarrow> json list \<Rightarrow> py_exn + json list" where
  "add_endpoints [] schema_endpoints = Inr schema_endpoints"
| "add_endpoints (endpoint # rest) schema_endpoints =
     (case contains_endpoint endpoint of
        Inl exn \<Rightarrow> Inl exn
      | Inr False \<Rightarrow> add_endpoints rest schema_endpoints
      | Inr True \<Rightarrow>
          (case endpoint of
             JDict d \<Rightarrow>
               (let v = py_get d ''endpoint'' JNull in
                if hashable v then add_endpoints rest (schema_endpoints @ [v])
                else Inl TypeError)
           | _ \<Rightarrow> Inl TypeError))"

fun check_refs :: "json list \<Rightarrow> nat \<Rightarrow> json list \<Rightarrow> py_exn + verror list" where
  "check_refs schema_endpoints idx [] = Inr []"
| "check_refs schema_endpoints idx (test # rest) =
     (case test of
        JDict t \<Rightarrow>
          (let test_endpoint = py_get t ''endpoint'' (JStr []) in
           if truthy test_endpoint then
             if \<not> hashable test_endpoint then Inl TypeError
             else (case check_refs schema_endpoints (Suc idx) rest of
                     Inl exn \<Rightarrow> Inl exn
                   | Inr errs \<Rightarrow>
                       Inr ((if \<not> list_ex (py_eq test_endpoint) schema_endpoints
                             then [NonExistentEndpoint idx test_endpoint] else []) @ errs))
           else check_refs schema_endpoints (Suc idx) rest)
      | _ \<Rightarrow> Inl AttributeError)"

definition cross_reference :: "json \<Rightarrow> json \<Rightarrow> py_exn + verror list" where
  "cross_reference normalized_schema test_cases =
     (if truthy normalized_schema \<and> truthy test_cases then
        (case py_iter normalized_schema of
           Inl exn \<Rightarrow> Inl exn
         | Inr endpoints \<Rightarrow>
             (case add_endpoints endpoints [] of
                Inl exn \<Rightarrow> Inl exn
              | Inr schema_endpoints \<Rightarrow>
                  (case py_iter test_cases of
                     Inl exn \<Rightarrow> Inl exn
                   | Inr tests \<Rightarrow> check_refs schema_endpoints 0 tests)))
      else Inr [])"

fun is_list :: "json \<Rightarrow> bool" where
  "is_list (JList xs) = True"
| "is_list j = False"

text \<open>
  \<^verbatim>\<open>ValidationService.validate_agent1_output\<close>: the returned pair
  \<^verbatim>\<open>(is_valid, errors)\<close>, or the exception raised. The parameter \<^verbatim>\<open>base_url\<close> is
  never read. The upper-cased methods are written into the items of the plan in place;
  the later steps of the function read the changed items, which the model passes on,
  and the changed plan is not part of the returned pair.
\<close>

definition validate_agent1_output :: "pydict \<Rightarrow> string \<Rightarrow> py_exn + (bool \<times> verror list)" where
  "validate_agent1_output agent_output base_url =
     (let errors0 = map MissingRequiredField
                      (filter (\<lambda>field. \<not> has_key agent_output field) required_fields);
          status = py_get agent_output ''status'' JNull
      in
      if status = JStr ''reject'' then
        Inr (False, if errors0 = [] then [SchemaRejectedByAI] else errors0)
      else
        (let errors1 = errors0 @ (if status \<noteq> JStr ''ok'' then [InvalidStatus status] else [])
         in
         case check_schema (py_get agent_output ''normalized_schema'' (JList [])) of
           Inl exn \<Rightarrow> Inl exn
         | Inr (errors2, normalized_schema) \<Rightarrow>
             (case check_tests (py_get agent_output ''test_cases'' (JList [])) of
                Inl exn \<Rightarrow> Inl exn
              | Inr (errors3, test_cases) \<Rightarrow>
                  (case cross_reference normalized_schema test_cases of
                     Inl exn \<Rightarrow> Inl exn
                   | Inr errors4 \<Rightarrow>
                       (let errors_field = py_get agent_output ''errors'' (JList []);
                            errors5 = (if \<not> is_list errors_field
                                       then [ErrorsFieldNotList] else []);
                            errors = errors1 @ errors2 @ errors3 @ errors4 @ errors5
                        in Inr (errors = [], errors))))))"

text \<open>Sample plans.\<close>

definition users_endpoint :: json where
  "users_endpoint = JDict [(''endpoint'', JStr ''/users''), (''method'', JStr ''get'')]"

definition mk_test :: "json \<Rightarrow> json" where
  "mk_test e =
     JDict [(''endpoint'', e), (''method'', JStr ''GET''), (''test_type'', JStr ''xss''),
            (''expected_failure'', JBool True)]"

definition mk_plan :: "string \<Rightarrow> json list \<Rightarrow> json list \<Rightarrow> pydict" where
  "mk_plan st schema tests =
     [(''status'', JStr st), (''normalized_schema'', JList schema),
      (''test_cases'', JList tests), (''errors'', JList [])]"
text \<open>
  Items as the Planner interface types them: a dict whose \<^verbatim>\<open>endpoint\<close> and
  \<^verbatim>\<open>method\<close>, where present, are strings. \<open>endpoint_of\<close> is the \<^verbatim>\<open>endpoint\<close> of
  such an item.
\<close>

fun is_str :: "json \<Rightarrow> bool" where
  "is_str (JStr s) = True"
| "is_str j = False"

definition str_or_absent :: "pydict \<Rightarrow> string \<Rightarrow> bool" where
  "str_or_absent d k = (case map_of d k of None \<Rightarrow> True | Some v \<Rightarrow> is_str v)"

fun typed_item :: "json \<Rightarrow> bool" where
  "typed_item (JDict d) = (str_or_absent d ''endpoint'' \<and> str_or_absent d ''method'')"
| "typed_item j = False"

fun endpoint_of :: "json \<Rightarrow> json option" where
  "endpoint_of (JDict d) = map_of d ''endpoint''"
| "endpoint_of j = None"

definition good_plan :: pydict where
  "good_plan = mk_plan ''ok'' [users_endpoint] [mk_test (JStr ''/users'')]"

definition partial_plan :: pydict where
  "partial_plan =
     mk_plan ''partial''
       [JDict [(''endpoint'', JStr ''users''), (''method'', JStr ''post'')]]
       [mk_test (JStr ''/admin'')]"

definition rejected_plan :: pydict where
  "rejected_plan =
     [(''status'', JStr ''reject''), (''normalized_schema'', JList [users_endpoint]),
      (''test_cases'', JList [mk_test (JStr ''/admin'')]),
      (''errors'', JList [JStr ''schema has no paths''])]"

subsection \<open>Base URL check (\<^verbatim>\<open>ValidationService.validate_base_url\<close>)\<close>

text \<open>
  The pattern is \<^verbatim>\<open>^https?://[a-zA-Z0-9.-]+(?::\d+)?(?:/.*)?$\<close>, applied with
  \<^verbatim>\<open>re.match\<close>: \<^verbatim>\<open>.\<close> is any character but a newline and \<^verbatim>\<open>$\<close> is the end of the
  string or the place before a newline that ends it.
\<close>

definition host_char :: "char \<Rightarrow> bool" where
  "host_char c =
     (let n = (of_char c :: nat) in
      (97 \<le> n \<and> n \<le> 122) \<or> (65 \<le> n \<and> n \<le> 90) \<or> (48 \<le> n \<and> n \<le> 57)
      \<or> c = CHR ''.'' \<or> c = CHR ''-'')"

definition is_digit :: "char \<Rightarrow> bool" where
  "is_digit c = (let n = (of_char c :: nat) in 48 \<le> n \<and> n \<le> 57)"

definition newline :: char where
  "newline = CHR 0x0A"

text \<open>The strings the pattern matches, part by part.\<close>

definition base_url_language :: "string set" where
  "base_url_language =
     {scheme @ ''://'' @ host @ port @ path @ nl | scheme host port path nl.
        (scheme = ''http'' \<or> scheme = ''https'')
        \<and> host \<noteq> [] \<and> list_all host_char host
        \<and> (port = [] \<or> (\<exists>ds. port = CHR '':'' # ds \<and> ds \<noteq> [] \<and> list_all is_digit ds))
        \<and> (path = [] \<or> (\<exists>p. path = CHR ''/'' # p \<and> newline \<notin> set p))
        \<and> (nl = [] \<or> nl = [newline])}"

text \<open>
  The matcher, from left to right. The characters of the host are neither \<^verbatim>\<open>:\<close> nor
  \<^verbatim>\<open>/\<close>, and a digit is not \<^verbatim>\<open>/\<close>, so the greedy match of each part is the only one
  that can succeed.
\<close>

definition strip_scheme :: "string \<Rightarrow> string option" where
  "strip_scheme s =
     (if prefix ''https://'' s then Some (drop 8 s)
      else if prefix ''http://'' s then Some (drop 7 s)
      else None)"

fun match_tail :: "string \<Rightarrow> bool" where
  "match_tail [] = True"
| "match_tail (c # cs) =
     (if c = CHR ''/'' then newline \<notin> set (butlast cs) else c = newline \<and> cs = [])"

fun match_port_tail :: "string \<Rightarrow> bool" where
  "match_port_tail [] = True"
| "match_port_tail (c # cs) =
     (if c = CHR '':'' then takeWhile is_digit cs \<noteq> [] \<and> match_tail (dropWhile is_digit cs)
      else match_tail (c # cs))"

definition match_base_url :: "string \<Rightarrow> bool" where
  "match_base_url s =
     (case strip_scheme s of
        None \<Rightarrow> False
      | Some r \<Rightarrow> takeWhile host_char r \<noteq> [] \<and> match_port_tail (dropWhile host_char r))"

text \<open>\<^verbatim>\<open>base_url.rstrip('/')\<close>\<close>

definition rstrip_slash :: "string \<Rightarrow> string" where
  "rstrip_slash s = rev (dropWhile (\<lambda>c. c = CHR ''/'') (rev s))"

definition validate_base_url :: "string \<Rightarrow> bool" where
  "validate_base_url base_url =
     (if base_url = [] then False else match_base_url (rstrip_slash base_url))"

subsection \<open>Plan content hash (\<^verbatim>\<open>ValidationService.calculate_schema_hash\<close>)\<close>

text \<open>
  \<^verbatim>\<open>json.dumps(schema_content, sort_keys=True)\<close> with the default separators: the items
  of every dict are written in the order of their keys. The text of a float is given by
  the library, so \<open>float_repr\<close> is a parameter. Strings are written between double
  quotes, with the escapes of the encoder for ASCII text.
\<close>

definition hex_digit :: "nat \<Rightarrow> char" where
  "hex_digit n = (if n < 10 then char_of (48 + n) else char_of (87 + n))"

definition encode_char :: "char \<Rightarrow> string" where
  "encode_char c =
     (let n = (of_char c :: nat) in
      if c = CHR 0x22 then [CHR 0x5C, CHR 0x22]
      else if c = CHR 0x5C then [CHR 0x5C, CHR 0x5C]
      else if c = CHR 0x0A then [CHR 0x5C, CHR ''n'']
      else if c = CHR 0x0D then [CHR 0x5C, CHR ''r'']
      else if c = CHR 0x09 then [CHR 0x5C, CHR ''t'']
      else if c = CHR 0x08 then [CHR 0x5C, CHR ''b'']
      else if c = CHR 0x0C then [CHR 0x5C, CHR ''f'']
      else if n < 32 \<or> 126 < n
      then [CHR 0x5C, CHR ''u'', CHR ''0'', CHR ''0'', hex_digit (n div 16), hex_digit (n mod 16)]
      else [c])"

definition encode_str :: "string \<Rightarrow> string" where
  "encode_str s = [CHR 0x22] @ concat (map encode_char s) @ [CHR 0x22]"

text \<open>\<^verbatim>\<open>sep.join(parts)\<close>\<close>

fun join :: "string \<Rightarrow> string list \<Rightarrow> string" where
  "join sep [] = []"
| "join sep [x] = x"
| "join sep (x # y # ys) = x @ sep @ join sep (y # ys)"

fun dumps_sorted :: "(rat \<Rightarrow> string) \<Rightarrow> json \<Rightarrow> string" where
  "dumps_sorted float_repr JNull = ''null''"
| "dumps_sorted float_repr (JBool b) = (if b then ''true'' else ''false'')"
| "dumps_sorted float_repr (JInt n) = str_int n"
| "dumps_sorted float_repr (JFloat r) = float_repr r"
| "dumps_sorted float_repr (JStr s) = encode_str s"
| "dumps_sorted float_repr (JList xs) =
     ''['' @ join '', '' (map (dumps_sorted float_repr) xs) @ '']''"
| "dumps_sorted float_repr (JDict kvs) =
     ''{'' @ join '', ''
               (map (\<lambda>(k, v). encode_str k @ '': '' @ dumps_sorted float_repr v)
                    (sort_key fst kvs)) @ ''}''"

text \<open>
  \<^verbatim>\<open>calculate_schema_hash\<close>; \<open>sha256_hexdigest\<close> stands for
  \<^verbatim>\<open>hashlib.sha256(s.encode()).hexdigest()\<close>, a library function.
\<close>

definition calculate_schema_hash ::
  "(rat \<Rightarrow> string) \<Rightarrow> (string \<Rightarrow> string) \<Rightarrow> pydict \<Rightarrow> string \<Rightarrow> string" where
  "calculate_schema_hash float_repr sha256_hexdigest schema_content base_url =
     (let sorted_schema = dumps_sorted float_repr (JDict schema_content);
          content_str = sorted_schema @ base_url
      in sha256_hexdigest content_str)"

text \<open>
  Two JSON values that are equal as Python sees dicts: the same keys with equal values
  in every dict, whatever the order of insertion; lists equal item by item; the same
  scalar. The keys of a dict are distinct.
\<close>

fun json_equiv :: "json \<Rightarrow> json \<Rightarrow> bool" where
  "json_equiv (JDict a) (JDict b) =
     (distinct (map fst a) \<and> distinct (map fst b) \<and> set (map fst a) = set (map fst b)
      \<and> list_all (\<lambda>(k, v). case map_of b k of None \<Rightarrow> False | Some w \<Rightarrow> json_equiv v w) a)"
| "json_equiv (JList xs) (JList ys) = list_all2 json_equiv xs ys"
| "json_equiv x y = (x = y)"

definition schema_a :: pydict where
  "schema_a =
     [(''paths'', JDict [(''/users'', JDict [(''get'', JList [JInt 200, JInt 404]),
                                             (''post'', JNull)]),
                         (''/items'', JBool True)]),
      (''openapi'', JStr ''3.0'')]"

definition schema_b :: pydict where
  "schema_b =
     [(''openapi'', JStr ''3.0''),
      (''paths'', JDict [(''/items'', JBool True),
                         (''/users'', JDict [(''post'', JNull),
                                             (''get'', JList [JInt 200, JInt 404])])])]"

subsection \<open>Failure enrichment (\<^verbatim>\<open>analyze_failures\<close>, \<^verbatim>\<open>analyze_failures_with_agent2\<close>)\<close>

text \<open>
  Modelled from the spec: the declarations of the stored records (\<^verbatim>\<open>core/models.py\<close>,
  which is not among the sources). A FailureRecord is the persisted subset of a
  non-passed execution result, optionally enriched with rootCause, riskLevel and
  fixSuggestion; the fields are those the routes and services read and write. A
  field that is \<^verbatim>\<open>None\<close> is \<open>JNull\<close>.
\<close>

record failure_row =
  f_endpoint :: string
  f_test_type :: string
  f_request_payload :: json
  f_response_snippet :: string
  f_status_code :: "int option"
  f_failure_reason :: string
  root_cause :: json
  risk_level :: json
  fix_suggestion :: json

text \<open>
  What the two functions see of the world, for the one run they are called on: the flag
  \<^verbatim>\<open>agent2_called\<close> of the run, its failure rows in the order the queries return them,
  and the log of the invocations of the Analyzer (\<^verbatim>\<open>agent2.analyze_failures_batch\<close>):
  one entry per invocation, holding the failure data passed to it. The store keeps what
  is written and every commit succeeds.
\<close>

record world =
  agent2_called :: bool
  failures :: "failure_row list"
  analyzer_calls :: "pydict list list"

text \<open>
  The external collaborator: \<^verbatim>\<open>Agent2Service.analyze_failure\<close>, which asks the language
  model. Its answer is not determined by its argument, so it is a parameter that also
  takes the number of the call; \<open>None\<close> is an exception raised by it.
\<close>

type_synonym analyzer = "nat \<Rightarrow> pydict \<Rightarrow> pydict option"

datatype agent2_result =
    NothingToAnalyze
  | AnalyzedResult nat nat "pydict list"

datatype response =
    NoFailures
  | Cached "pydict list"
  | Analyzed agent2_result
  | ServerError

definition json_of_code :: "int option \<Rightarrow> json" where
  "json_of_code c = (case c of None \<Rightarrow> JNull | Some n \<Rightarrow> JInt n)"

definition failure_data :: "failure_row \<Rightarrow> pydict" where
  "failure_data failure =
     [(''endpoint'', JStr (f_endpoint failure)),
      (''test_type'', JStr (f_test_type failure)),
      (''payload'', f_request_payload failure),
      (''response_snippet'', JStr (f_response_snippet failure)),
      (''status_code'', json_of_code (f_status_code failure)),
      (''failure_reason'', JStr (f_failure_reason failure))]"

text \<open>
  \<^verbatim>\<open>Agent2Service.analyze_failures_batch\<close>: one analysis per failure, in order;
  \<open>n\<close> is the number of the first call.
\<close>

fun analyze_failures_batch :: "analyzer \<Rightarrow> nat \<Rightarrow> pydict list \<Rightarrow> pydict list" where
  "analyze_failures_batch analyze_failure n [] = []"
| "analyze_failures_batch analyze_failure n (failure # rest) =
     (case analyze_failure n failure of
        Some analysis \<Rightarrow>
          AList.update ''status_code'' (py_get failure ''status_code'' JNull)
            (AList.update ''test_type'' (py_get failure ''test_type'' JNull)
              (AList.update ''endpoint'' (py_get failure ''endpoint'' JNull) analysis))
      | None \<Rightarrow>
          [(''endpoint'', py_get failure ''endpoint'' JNull),
           (''test_type'', py_get failure ''test_type'' JNull),
           (''root_cause'', JStr ''Analysis failed''),
           (''risk_level'', JStr ''medium''),
           (''fix_suggestion'', JStr ''Manual investigation required'')])
     # analyze_failures_batch analyze_failure (Suc n) rest"

text \<open>
  The loop that writes the analyses into the rows: the i-th analysis goes to the i-th
  row that had no root cause; the other rows are not touched.
\<close>

fun store_analyses :: "failure_row list \<Rightarrow> pydict list \<Rightarrow> failure_row list" where
  "store_analyses [] analyses = []"
| "store_analyses (failure # rest) analyses =
     (if root_cause failure = JNull then
        (case analyses of
           [] \<Rightarrow> failure # rest
         | analysis # remaining \<Rightarrow>
             failure\<lparr>root_cause := py_get analysis ''root_cause'' (JStr []),
                      risk_level := py_get analysis ''risk_level'' (JStr ''medium''),
                      fix_suggestion := py_get analysis ''fix_suggestion'' (JStr [])\<rparr>
             # store_analyses rest remaining)
      else failure # store_analyses rest analyses)"

text \<open>
  \<^verbatim>\<open>analyze_failures_with_agent2\<close>. \<open>key_ok\<close> says whether the stored key of the user
  decrypts; if not, the function raises before it reads or writes anything.
\<close>

definition analyze_failures_with_agent2 ::
  "analyzer \<Rightarrow> bool \<Rightarrow> world \<Rightarrow> (unit + agent2_result) \<times> world" where
  "analyze_failures_with_agent2 analyze_failure key_ok w =
     (if \<not> key_ok then (Inl (), w)
      else
        (let unanalyzed = filter (\<lambda>failure. root_cause failure = JNull) (failures w) in
         if unanalyzed = [] then (Inr NothingToAnalyze, w)
         else
           (let failures_data = map failure_data unanalyzed;
                analyses = analyze_failures_batch analyze_failure
                             (length (concat (analyzer_calls w))) failures_data;
                analyzed_count = min (length analyses) (length unanalyzed)
            in (Inr (AnalyzedResult analyzed_count (length unanalyzed) analyses),
                w\<lparr>agent2_called := True,
                  failures := store_analyses (failures w) analyses,
                  analyzer_calls := analyzer_calls w @ [failures_data]\<rparr>))))"

text \<open>The entry of the cached answer for one row.\<close>

definition cached_analysis :: "failure_row \<Rightarrow> pydict" where
  "cached_analysis failure =
     [(''endpoint'', JStr (f_endpoint failure)),
      (''test_type'', JStr (f_test_type failure)),
      (''root_cause'', root_cause failure),
      (''risk_level'', risk_level failure),
      (''fix_suggestion'', fix_suggestion failure)]"

text \<open>
  The route \<^verbatim>\<open>analyze_failures\<close>, for a run that exists and belongs to the user.
\<close>

definition analyze_failures :: "analyzer \<Rightarrow> bool \<Rightarrow> world \<Rightarrow> response \<times> world" where
  "analyze_failures analyze_failure key_ok w =
     (if length (failures w) = 0 then (NoFailures, w)
      else if agent2_called w then (Cached (map cached_analysis (failures w)), w)
      else (case analyze_failures_with_agent2 analyze_failure key_ok w of
              (Inl exn, w') \<Rightarrow> (ServerError, w')
            | (Inr res, w') \<Rightarrow> (Analyzed res, w')))"

text \<open>
  What is kept of an analysis an invocation returned: the five fields of the cached
  answer, with the defaults used when the analysis is stored.
\<close>

definition stored_view :: "pydict \<Rightarrow> pydict" where
  "stored_view analysis =
     [(''endpoint'', py_get analysis ''endpoint'' JNull),
      (''test_type'', py_get analysis ''test_type'' JNull),
      (''root_cause'', py_get analysis ''root_cause'' (JStr [])),
      (''risk_level'', py_get analysis ''risk_level'' (JStr ''medium'')),
      (''fix_suggestion'', py_get analysis ''fix_suggestion'' (JStr []))]"

definition fresh_failure :: "string \<Rightarrow> string \<Rightarrow> int option \<Rightarrow> string \<Rightarrow> failure_row" where
  "fresh_failure e t c reason =
     \<lparr>f_endpoint = e, f_test_type = t, f_request_payload = JDict [],
      f_response_snippet = [], f_status_code = c, f_failure_reason = reason,
      root_cause = JNull, risk_level = JNull, fix_suggestion = JNull\<rparr>"

definition sample_world :: world where
  "sample_world =
     \<lparr>agent2_called = False,
      failures = [fresh_failure ''/users'' ''xss'' (Some 500) ''5xx Server Error (500)'',
                  fresh_failure ''/items'' ''timeout'' None ''Request timeout''],
      analyzer_calls = []\<rparr>"

definition sample_analyzer :: analyzer where
  "sample_analyzer n failure =
     (if n = 0 then Some [(''root_cause'', JStr ''unhandled exception''),
                          (''risk_level'', JStr ''high'')]
      else None)"

definition first_call :: "response \<times> world" where
  "first_call = analyze_failures sample_analyzer True sample_world"

definition second_call :: "response \<times> world" where
  "second_call = analyze_failures sample_analyzer True (snd first_call)"

definition first_analyses :: "pydict list" where
  "first_analyses =
     [[(''root_cause'', JStr ''unhandled exception''), (''risk_level'', JStr ''high''),
       (''endpoint'', JStr ''/users''), (''test_type'', JStr ''xss''),
       (''status_code'', JInt 500)],
      [(''endpoint'', JStr ''/items''), (''test_type'', JStr ''timeout''),
       (''root_cause'', JStr ''Analysis failed''), (''risk_level'', JStr ''medium''),
       (''fix_suggestion'', JStr ''Manual investigation required'')]]"

section \<open>Verification\<close>

subsection \<open>Stability score\<close>

lemma count_result_eq:
  "count_result r (a, b, c) =
     (a + of_bool (is_5xx r), b + of_bool (is_invalid_success r), c + of_bool (is_timeout r))"
  by (auto simp: count_result_def is_5xx_def is_invalid_success_def is_timeout_def
      reason_of_def Let_def split: option.splits)

lemma fold_count_result:
  "fold count_result rs (a, b, c) =
     (a + num_5xx rs, b + num_invalid_success rs, c + num_timeouts rs)"
  by (induction rs arbitrary: a b c)
     (simp_all add: count_result_eq num_5xx_def num_invalid_success_def num_timeouts_def)

lemma round2_of_int: "round2 (of_int n) = of_int n"
proof -
  have "(of_int n :: rat) * 100 = of_int (n * 100)" by simp
  then show ?thesis
    unfolding round2_def Let_def by (simp del: of_int_mult)
qed

lemma score_as_int:
  "calculate_stability_score tr =
     of_int (max 0 (min 100 (100 - 5 * num_5xx (results_to_check tr)
                                 - 3 * num_invalid_success (results_to_check tr)
                                 - 2 * num_timeouts (results_to_check tr))))"
proof -
  let ?a = "num_5xx (results_to_check tr)"
  let ?b = "num_invalid_success (results_to_check tr)"
  let ?c = "num_timeouts (results_to_check tr)"
  have "calculate_stability_score tr
        = round2 (max 0 (min 100 (100 - of_int (5 * ?a) - of_int (3 * ?b) - of_int (2 * ?c))))"
    by (simp add: calculate_stability_score_def fold_count_result Let_def)
  also have "max (0::rat) (min 100 (100 - of_int (5 * ?a) - of_int (3 * ?b) - of_int (2 * ?c)))
        = of_int (max 0 (min 100 (100 - 5 * ?a - 3 * ?b - 2 * ?c)))"
    by (simp add: max_def min_def)
  finally show ?thesis by (simp only: round2_of_int)
qed

text \<open>
  C1, as the code has it. The three counters are filled by three independent tests:
  after the loop each counter holds the number of results that meet its own condition.
  A result is counted at most once in each counter, and in every counter whose
  condition it meets; there is no precedence between the counters.
\<close>

theorem score_counters_independent:
  "fold count_result rs (0, 0, 0) = (num_5xx rs, num_invalid_success rs, num_timeouts rs)"
  using fold_count_result [of rs 0 0 0] by simp

text \<open>
  C1, as stated, fails: a result with status code 503 whose failure reason mentions a
  timeout is counted in the 5xx counter and in the timeout counter.
\<close>

theorem score_double_count_counterexample:
  "fold count_result [mk_result (Some 503) FAILED (Some ''Gateway timeout'')] (0, 0, 0)
     = (1, 0, 1)"
  by code_simp

text \<open>
  C2. With a, b and c the numbers of results counted as 5xx, invalid success and
  timeout, the score is 100 - 5a - 3b - 2c clamped to the interval from 0 to 100 (rounding
  to two decimals leaves this whole number as it is). With a = 2, b = 1, c = 1 the score
  is 85; with 25 or more 5xx results it is 0; it is never negative and never above 100.
\<close>

theorem stability_score_formula:
  "calculate_stability_score tr =
     of_int (max 0 (min 100 (100 - 5 * num_5xx (results_to_check tr)
                                 - 3 * num_invalid_success (results_to_check tr)
                                 - 2 * num_timeouts (results_to_check tr))))
   \<and> (num_5xx (results_to_check tr) = 2 \<and> num_invalid_success (results_to_check tr) = 1
        \<and> num_timeouts (results_to_check tr) = 1 \<longrightarrow> calculate_stability_score tr = 85)
   \<and> (25 \<le> num_5xx (results_to_check tr) \<longrightarrow> calculate_stability_score tr = 0)
   \<and> 0 \<le> calculate_stability_score tr \<and> calculate_stability_score tr \<le> 100"
proof -
  have nn: "0 \<le> num_invalid_success (results_to_check tr)"
    "0 \<le> num_timeouts (results_to_check tr)"
    by (simp_all add: num_invalid_success_def num_timeouts_def)
  show ?thesis
    unfolding score_as_int using nn by (auto simp: max_def min_def)
qed

theorem stability_score_formula_witness:
  "(num_5xx (results_to_check run_85) = 2 \<and> num_invalid_success (results_to_check run_85) = 1
      \<and> num_timeouts (results_to_check run_85) = 1)
   \<and> calculate_stability_score run_85 = 85
   \<and> 25 \<le> num_5xx (results_to_check run_floor)
   \<and> calculate_stability_score run_floor = 0"
proof -
  have a: "num_5xx (results_to_check run_85) = 2
        \<and> num_invalid_success (results_to_check run_85) = 1
        \<and> num_timeouts (results_to_check run_85) = 1"
    by code_simp
  have b: "25 \<le> num_5xx (results_to_check run_floor)"
    by code_simp
  show ?thesis
    using stability_score_formula [of run_85] stability_score_formula [of run_floor] a b
    by blast
qed

subsection \<open>Classifier\<close>

lemma str_int_503: "str_int 503 = ''503''"
  by code_simp

text \<open>
  C4. A response with status code 503 is classified FAILED with the reason
  "5xx Server Error (503)", whatever the test case says (so also when its
  expected_failure is true) and whatever the body holds; the same holds for every
  status code from 500 on, with that code in the reason: rule 1 is tested first.
\<close>

theorem classify_5xx_first:
  "analyze_response 503 body rt tc = (FAILED, Some ''5xx Server Error (503)'')
   \<and> analyze_response 503 body rt tc \<noteq> (FAILED, Some ''Invalid success - bad input was accepted'')
   \<and> (500 \<le> code \<longrightarrow>
        analyze_response code body rt tc
          = (FAILED, Some (''5xx Server Error ('' @ str_int code @ '')'')))"
  by (simp add: analyze_response_def Let_def str_int_503)

theorem classify_5xx_first_witness:
  "truthy (py_get [(''test_type'', JStr ''xss''), (''expected_failure'', JBool True)]
             ''expected_failure'' (JBool False))
   \<and> (500::int) \<le> 503
   \<and> analyze_response 503 ''Traceback (most recent call last)'' 12
         [(''test_type'', JStr ''xss''), (''expected_failure'', JBool True)]
       = (FAILED, Some ''5xx Server Error (503)'')"
  using classify_5xx_first [of "''Traceback (most recent call last)''" 12
      "[(''test_type'', JStr ''xss''), (''expected_failure'', JBool True)]" 503]
  by (simp add: py_get_def str_int_503)

subsection \<open>Sanitizer\<close>

lemma redacted_form_scalar: "\<not> is_container j \<Longrightarrow> redacted_form j = j"
  by (cases j) simp_all

lemma redacted_form_JDict:
  "redacted_form (JDict kvs) =
     JDict (map (\<lambda>(key, v). (key, if is_sensitive key then REDACTED else redacted_form v)) kvs)"
  by (auto simp: redacted_form_scalar)

lemma map_of_map_values:
  "map_of (map (\<lambda>(key, v). (key, f key v)) kvs) k = map_option (f k) (map_of kvs k)"
  by (induction kvs) auto

lemma all_redacted_sanitize: "all_redacted (redacted_form j)"
proof (induction j rule: redacted_form.induct)
  case (1 kvs)
  have "all_redacted (if is_container v then redacted_form v else v)"
    if "(k, v) \<in> set kvs" "\<not> is_sensitive k" for k v
  proof (cases "is_container v")
    case True
    with 1 that show ?thesis by simp
  next
    case False
    then show ?thesis by (cases v) simp_all
  qed
  then show ?case
    by (fastforce simp: list_all_iff split: if_splits)
next
  case (2 xs)
  then show ?case by (simp add: list_all_iff)
qed simp_all

lemma lookup_sanitize:
  "\<not> list_ex sensitive_step p \<Longrightarrow>
     lookup p (redacted_form j) = map_option redacted_form (lookup p j)"
proof (induction p arbitrary: j)
  case Nil
  then show ?case by simp
next
  case (Cons s p)
  show ?case
  proof (cases s)
    case (Key k)
    with Cons.prems have ns: "\<not> is_sensitive k" and np: "\<not> list_ex sensitive_step p"
      by simp_all
    show ?thesis
    proof (cases j)
      case (JDict kvs)
      show ?thesis
        using Cons.IH [OF np] ns
        by (simp add: Key JDict redacted_form_JDict map_of_map_values
            del: redacted_form.simps split: option.splits)
    qed (simp_all add: Key)
  next
    case (Idx i)
    with Cons.prems have np: "\<not> list_ex sensitive_step p"
      by simp
    show ?thesis
    proof (cases j)
      case (JList xs)
      show ?thesis
        using Cons.IH [OF np] by (simp add: Idx JList)
    qed (simp_all add: Idx)
  qed
qed

lemma lookup_append:
  "lookup (p @ q) j = (case lookup p j of None \<Rightarrow> None | Some v \<Rightarrow> lookup q v)"
proof (induction p j rule: lookup.induct)
  case (2 k p kvs)
  then show ?case by (simp split: option.splits)
qed simp_all

lemma lookup_sensitive_key:
  assumes "is_sensitive k" and "lookup [Key k] j = Some v"
  shows "lookup [Key k] (redacted_form j) = Some REDACTED"
proof (cases j)
  case (JDict kvs)
  with assms show ?thesis
    by (simp add: redacted_form_JDict map_of_map_values del: redacted_form.simps
        split: option.splits)
qed (use assms in simp_all)



text \<open>
  When \<^verbatim>\<open>sanitize_dict\<close> returns, it returns the redacted form; it returns when the
  frames available are at least the frames the value needs; and on a value nested in
  more lists than the frames allow it raises.
\<close>

lemma those_map_Some:
  "(\<And>x. x \<in> set xs \<Longrightarrow> f x = Some (g x)) \<Longrightarrow> those (map f xs) = Some (map g xs)"
  by (induction xs) simp_all

lemma those_map_eq:
  "those (map f xs) = Some ys \<Longrightarrow> (\<And>x y. x \<in> set xs \<Longrightarrow> f x = Some y \<Longrightarrow> y = g x)
     \<Longrightarrow> ys = map g xs"
proof (induction xs arbitrary: ys)
  case Nil
  then show ?case by simp
next
  case (Cons x xs)
  from Cons.prems(1) obtain y zs where y: "f x = Some y" and zs: "those (map f xs) = Some zs"
    and ys: "ys = y # zs"
    by (auto split: option.splits)
  from Cons.prems(2) [of x y] y have "y = g x" by simp
  moreover from Cons.IH [OF zs] Cons.prems(2) have "zs = map g xs" by simp
  ultimately show ?case using ys by simp
qed

lemma sanitize_dict_Some:
  "sanitize_dict cf fuel j = Some s \<Longrightarrow> s = redacted_form j"
proof (induction cf fuel j arbitrary: s rule: sanitize_dict.induct)
  case (2 cf n kvs)
  let ?f = "\<lambda>(key, v).
              if is_sensitive key then Some (key, REDACTED)
              else if is_container v then map_option (Pair key) (sanitize_dict cf n v)
              else Some (key, v)"
  let ?g = "\<lambda>(key, v).
              if is_sensitive key then (key, REDACTED)
              else if is_container v then (key, redacted_form v)
              else (key, v)"
  from "2.prems" obtain kvs' where t: "those (map ?f kvs) = Some kvs'" and s: "s = JDict kvs'"
    by (auto split: if_splits)
  have "kvs' = map ?g kvs"
  proof (rule those_map_eq [OF t])
    fix x y assume x: "x \<in> set kvs" and fx: "?f x = Some y"
    obtain key v where kv: "x = (key, v)" by (cases x)
    show "y = ?g x"
    proof (cases "\<not> is_sensitive key \<and> is_container v")
      case True
      then have ns: "\<not> is_sensitive key" and ic: "is_container v"
        by simp_all
      from fx kv ns ic obtain w where w: "sanitize_dict cf n v = Some w" and y: "y = (key, w)"
        by auto
      from "2.prems" have pos: "\<not> (kvs \<noteq> [] \<and> n = 0)"
        by (auto split: if_splits)
      have "w = redacted_form v"
        by (rule "2.IH" [OF pos x kv [symmetric] ns ic w])
      with y kv ns ic show ?thesis by simp
    next
      case False
      with fx kv show ?thesis by auto
    qed
  qed
  with s show ?case by simp
next
  case (3 cf n xs)
  from "3.prems" obtain ys where t: "those (map (sanitize_dict cf (n - cf)) xs) = Some ys"
    and s: "s = JList ys" and nc: "\<not> n < cf"
    by (auto split: if_splits)
  have "ys = map redacted_form xs"
  proof (rule those_map_eq [OF t])
    fix x y assume "x \<in> set xs" and "sanitize_dict cf (n - cf) x = Some y"
    then show "y = redacted_form x"
      by (rule "3.IH" [OF nc])
  qed
  with s show ?case by simp
qed simp_all

lemma le_foldr_max: "x \<in> set xs \<Longrightarrow> f x \<le> foldr max (map f xs) (0::nat)"
proof (induction xs)
  case Nil
  then show ?case by simp
next
  case (Cons a xs)
  then show ?case
    by (cases "x = a") (simp_all add: le_max_iff_disj)
qed

lemma sanitize_dict_enough:
  "frames_needed cf j \<le> fuel \<Longrightarrow> sanitize_dict cf fuel j = Some (redacted_form j)"
proof (induction cf fuel j rule: sanitize_dict.induct)
  case (1 cf obj)
  then show ?case by (cases obj) simp_all
next
  case (2 cf n kvs)
  let ?h = "\<lambda>(key, v). if is_sensitive key then 1
                        else if is_container v then frames_needed cf v else 1"
  let ?f = "\<lambda>(key, v).
              if is_sensitive key then Some (key, REDACTED)
              else if is_container v then map_option (Pair key) (sanitize_dict cf n v)
              else Some (key, v)"
  let ?g = "\<lambda>(key, v).
              if is_sensitive key then (key, REDACTED)
              else if is_container v then (key, redacted_form v)
              else (key, v)"
  from "2.prems" have m: "foldr max (map ?h kvs) 0 \<le> n"
    by simp
  have each: "?h x \<le> n" if "x \<in> set kvs" for x
    using le_foldr_max [OF that, of ?h] m by linarith
  have pos: "\<not> (kvs \<noteq> [] \<and> n = 0)"
  proof
    assume a: "kvs \<noteq> [] \<and> n = 0"
    then obtain x where x: "x \<in> set kvs" by (cases kvs) auto
    obtain key v where "x = (key, v)" by (cases x)
    with each [OF x] a have "frames_needed cf v = 0 \<and> is_container v"
      by (auto split: if_splits)
    then show False by (cases v) simp_all
  qed
  have "those (map ?f kvs) = Some (map ?g kvs)"
  proof (rule those_map_Some)
    fix x assume x: "x \<in> set kvs"
    obtain key v where kv: "x = (key, v)" by (cases x)
    show "?f x = Some (?g x)"
    proof (cases "\<not> is_sensitive key \<and> is_container v")
      case True
      then have ns: "\<not> is_sensitive key" and ic: "is_container v"
        by simp_all
      from each [OF x] kv ns ic have le: "frames_needed cf v \<le> n" by simp
      have "sanitize_dict cf n v = Some (redacted_form v)"
        by (rule "2.IH" [OF pos x kv [symmetric] ns ic le])
      with kv ns ic show ?thesis by simp
    next
      case False
      with kv show ?thesis by auto
    qed
  qed
  with pos show ?case by simp
next
  case (3 cf n xs)
  from "3.prems" have m: "cf + foldr max (map (frames_needed cf) xs) 0 \<le> n"
    by simp
  then have nc: "\<not> n < cf" by simp
  have "those (map (sanitize_dict cf (n - cf)) xs) = Some (map redacted_form xs)"
  proof (rule those_map_Some)
    fix x assume x: "x \<in> set xs"
    from le_foldr_max [OF x, of "frames_needed cf"] m have le: "frames_needed cf x \<le> n - cf"
      by linarith
    show "sanitize_dict cf (n - cf) x = Some (redacted_form x)"
      by (rule "3.IH" [OF nc x le])
  qed
  with nc show ?case by simp
qed simp_all

lemma sanitize_dict_too_deep:
  "fuel \<le> n * (1 + cf) \<Longrightarrow> sanitize_dict cf fuel (nest n j) = None"
proof (induction n arbitrary: fuel)
  case 0
  then show ?case by simp
next
  case (Suc n)
  show ?case
  proof (cases fuel)
    case 0
    then show ?thesis by simp
  next
    case (Suc m)
    show ?thesis
    proof (cases "m < cf")
      case True
      with Suc show ?thesis by simp
    next
      case False
      with Suc Suc.prems have "m - cf \<le> n * (1 + cf)"
        by simp
      then have "sanitize_dict cf (m - cf) (nest n j) = None"
        by (rule Suc.IH)
      with Suc False show ?thesis by simp
    qed
  qed
qed


text \<open>
  What the redaction does: (1) in the redacted value no dict at any depth, also inside
  lists, has a sensitive key with a value other than the marker; (2) at every path that
  passes through no sensitive key the redacted value holds the redacted form of what
  the body holds there, so the same dicts with the same keys and the same lists are
  found at the same places; (3) a value that is neither a dict nor a list is unchanged,
  so a non-sensitive sibling keeps its value; (4) wherever the body has a sensitive key
  below such a path, the redacted value has the marker.
\<close>

lemma redacted_form_spec:
  "all_redacted (redacted_form j)
   \<and> (\<forall>p. \<not> list_ex sensitive_step p \<longrightarrow>
          lookup p (redacted_form j) = map_option redacted_form (lookup p j))
   \<and> (\<forall>p v. \<not> list_ex sensitive_step p \<and> lookup p j = Some v \<and> \<not> is_container v \<longrightarrow>
          lookup p (redacted_form j) = Some v)
   \<and> (\<forall>p k v. \<not> list_ex sensitive_step p \<and> is_sensitive k \<and> lookup (p @ [Key k]) j = Some v \<longrightarrow>
          lookup (p @ [Key k]) (redacted_form j) = Some REDACTED)"
proof (intro conjI allI impI)
  show "all_redacted (redacted_form j)"
    by (rule all_redacted_sanitize)
next
  fix p assume "\<not> list_ex sensitive_step p"
  then show "lookup p (redacted_form j) = map_option redacted_form (lookup p j)"
    by (rule lookup_sanitize)
next
  fix p v assume "\<not> list_ex sensitive_step p \<and> lookup p j = Some v \<and> \<not> is_container v"
  then show "lookup p (redacted_form j) = Some v"
    by (simp add: lookup_sanitize redacted_form_scalar)
next
  fix p k v
  assume a: "\<not> list_ex sensitive_step p \<and> is_sensitive k \<and> lookup (p @ [Key k]) j = Some v"
  then obtain w where w: "lookup p j = Some w" "lookup [Key k] w = Some v"
    by (auto simp: lookup_append split: option.splits)
  from a w have "lookup p (redacted_form j) = Some (redacted_form w)"
    by (simp add: lookup_sanitize)
  moreover have "lookup [Key k] (redacted_form w) = Some REDACTED"
    using a w lookup_sensitive_key by blast
  ultimately show "lookup (p @ [Key k]) (redacted_form j) = Some REDACTED"
    by (simp add: lookup_append)
qed

lemma sanitize_response_within_limit:
  assumes "body \<noteq> []" and "loads body = Some j" and "frames_needed cf j \<le> frames"
    and "dumps (redacted_form j) = Some out"
  shows "sanitize_response loads dumps cf frames body = out"
  using assms by (simp add: sanitize_response_def sanitize_dict_enough)

lemma sanitize_response_sample:
  "sanitize_response (\<lambda>s. Some sample_body) (\<lambda>j. if j = redacted_form sample_body then Some ''ok'' else None)
     1 1000 ''{}'' = ''ok''"
  by (rule sanitize_response_within_limit) (simp, simp, code_simp, simp)

lemma deep_body_leak: "sublist ''hunter2'' (take 1000 deep_body)"
  by code_simp

text \<open>
  C7 fails on the code for a body nested beyond the recursion limit. The body
  \<^verbatim>\<open>[[...[{"password": "hunter2"}]...]]\<close> with 600 nested lists parses as JSON, and
  its key password is sensitive. With one frame for each list comprehension and 1000
  frames available, \<^verbatim>\<open>sanitize_dict\<close> raises; the bare \<^verbatim>\<open>except\<close> then returns the first
  1000 characters of the body as they came, and the password is among them in clear.
\<close>

theorem sanitizer_leaks_deep_body:
  "deep_loads deep_body = Some deep_value
   \<and> is_sensitive ''password''
   \<and> sanitize_dict 1 1000 deep_value = None
   \<and> sanitize_response deep_loads dumps 1 1000 deep_body = take 1000 deep_body
   \<and> sublist ''hunter2'' (sanitize_response deep_loads dumps 1 1000 deep_body)"
proof -
  have l: "deep_loads deep_body = Some deep_value"
    by (simp add: deep_loads_def)
  have k: "is_sensitive ''password''"
    by code_simp
  have n: "sanitize_dict 1 1000 deep_value = None"
    unfolding deep_value_def by (rule sanitize_dict_too_deep) simp
  have b: "deep_body \<noteq> []"
    by (simp add: deep_body_def)
  from l n b have r: "sanitize_response deep_loads dumps 1 1000 deep_body = take 1000 deep_body"
    by (simp add: sanitize_response_def)
  with l k n deep_body_leak show ?thesis
    by simp
qed


subsection \<open>Validation gate\<close>

lemma py_eq_JStr: "py_eq (JStr s) v \<longleftrightarrow> v = JStr s"
  by (cases v) (auto simp: py_eq_def)

lemma check_endpoint_typed:
  assumes "typed_item e"
  shows "\<exists>errs e'. check_endpoint idx e = Inr (errs, e') \<and> typed_item e'
           \<and> endpoint_of e' = endpoint_of e"
proof -
  from assms obtain d where e: "e = JDict d"
    by (cases e) simp_all
  show ?thesis
  proof (cases "map_of d ''method''")
    case None
    with assms e show ?thesis
      by (simp add: check_endpoint_def)
  next
    case (Some v)
    with assms e obtain m where m: "v = JStr m"
      by (cases v) (simp_all add: str_or_absent_def)
    with assms e Some show ?thesis
      by (simp add: check_endpoint_def Let_def str_or_absent_def update_conv')
  qed
qed

lemma check_test_typed:
  assumes "typed_item e"
  shows "\<exists>errs e'. check_test idx e = Inr (errs, e') \<and> typed_item e'
           \<and> endpoint_of e' = endpoint_of e"
proof -
  from assms obtain d where e: "e = JDict d"
    by (cases e) simp_all
  show ?thesis
  proof (cases "map_of d ''method''")
    case None
    with assms e show ?thesis
      by (simp add: check_test_def)
  next
    case (Some v)
    with assms e obtain m where m: "v = JStr m"
      by (cases v) (simp_all add: str_or_absent_def)
    with assms e Some show ?thesis
      by (simp add: check_test_def Let_def str_or_absent_def update_conv')
  qed
qed

lemma for_enumerate_typed:
  assumes "\<And>idx e. typed_item e \<Longrightarrow>
     \<exists>errs e'. body idx e = Inr (errs, e') \<and> typed_item e' \<and> endpoint_of e' = endpoint_of e"
    and "list_all typed_item xs"
  shows "\<exists>errs xs'. for_enumerate body idx xs = Inr (errs, xs') \<and> list_all typed_item xs'
           \<and> map endpoint_of xs' = map endpoint_of xs"
  using assms(2)
proof (induction xs arbitrary: idx)
  case Nil
  then show ?case by simp
next
  case (Cons x xs)
  from Cons.prems have tx: "typed_item x" and txs: "list_all typed_item xs"
    by simp_all
  from assms(1) [OF tx, of idx] obtain errs e' where
    b: "body idx x = Inr (errs, e')" "typed_item e'" "endpoint_of e' = endpoint_of x"
    by blast
  from Cons.IH [OF txs, of "Suc idx"] obtain errs' xs' where
    r: "for_enumerate body (Suc idx) xs = Inr (errs', xs')" "list_all typed_item xs'"
       "map endpoint_of xs' = map endpoint_of xs"
    by blast
  from b r show ?case by simp
qed

lemma add_endpoints_typed:
  "list_all typed_item xs \<Longrightarrow>
     add_endpoints xs acc = Inr (acc @ List.map_filter endpoint_of xs)"
proof (induction xs arbitrary: acc)
  case Nil
  then show ?case by (simp add: List.map_filter_simps)
next
  case (Cons x xs)
  from Cons.prems obtain d where x: "x = JDict d"
    by (cases x) simp_all
  show ?case
  proof (cases "map_of d ''endpoint''")
    case None
    with Cons x show ?thesis
      by (simp add: has_key_def List.map_filter_simps)
  next
    case (Some v)
    with Cons.prems x obtain s where "v = JStr s"
      by (cases v) (simp_all add: str_or_absent_def)
    with Some Cons x show ?thesis
      by (simp add: has_key_def py_get_def List.map_filter_simps)
  qed
qed

lemma check_refs_typed:
  "list_all typed_item tests \<Longrightarrow> \<exists>errs. check_refs S idx tests = Inr errs"
proof (induction tests arbitrary: idx)
  case Nil
  then show ?case by simp
next
  case (Cons x xs)
  from Cons.prems obtain d where x: "x = JDict d"
    by (cases x) simp_all
  from Cons obtain errs where r: "check_refs S (Suc idx) xs = Inr errs"
    by fastforce
  have h: "hashable (py_get d ''endpoint'' (JStr []))"
  proof (cases "map_of d ''endpoint''")
    case None
    then show ?thesis by (simp add: py_get_def)
  next
    case (Some v)
    with Cons.prems x show ?thesis
      by (cases v) (simp_all add: py_get_def str_or_absent_def)
  qed
  from x r h show ?case by (simp add: Let_def)
qed

lemma check_refs_finds:
  assumes "list_all typed_item tests" and "i < length tests"
    and "endpoint_of (tests ! i) = Some (JStr ep)" and "ep \<noteq> []"
    and "JStr ep \<notin> set S"
    and "check_refs S idx tests = Inr errs"
  shows "NonExistentEndpoint (idx + i) (JStr ep) \<in> set errs"
  using assms
proof (induction tests arbitrary: idx i errs)
  case Nil
  then show ?case by simp
next
  case (Cons x xs)
  from Cons.prems(1) obtain d where x: "x = JDict d" and txs: "list_all typed_item xs"
    by (cases x) simp_all
  from check_refs_typed [OF txs] obtain errs' where
    r: "check_refs S (Suc idx) xs = Inr errs'"
    by blast
  have sub: "set errs' \<subseteq> set errs"
    using Cons.prems(6) x r by (auto simp: Let_def split: if_splits)
  show ?case
  proof (cases i)
    case 0
    with Cons.prems x have "py_get d ''endpoint'' (JStr []) = JStr ep"
      by (simp add: py_get_def)
    with Cons.prems(4,5,6) x r 0 show ?thesis
      by (auto simp: Let_def list_ex_iff py_eq_JStr)
  next
    case (Suc j)
    with Cons.prems txs have "NonExistentEndpoint (Suc idx + j) (JStr ep) \<in> set errs'"
      using Cons.IH [of j "Suc idx" errs'] r by simp
    with sub Suc show ?thesis by auto
  qed
qed


lemma check_schema_typed:
  assumes "list_all typed_item schema" and "schema \<noteq> []"
  shows "\<exists>errs schema'. check_schema (JList schema) = Inr (errs, JList schema')
           \<and> schema' \<noteq> [] \<and> list_all typed_item schema'
           \<and> map endpoint_of schema' = map endpoint_of schema"
proof -
  from for_enumerate_typed [of check_endpoint schema 0, OF check_endpoint_typed assms(1)]
  obtain errs xs' where
    r: "for_enumerate check_endpoint 0 schema = Inr (errs, xs')" "list_all typed_item xs'"
       "map endpoint_of xs' = map endpoint_of schema"
    by blast
  from r(3) assms(2) have "xs' \<noteq> []" by auto
  with r assms(2) show ?thesis
    by (simp add: check_schema_def)
qed

lemma check_tests_typed:
  assumes "list_all typed_item tests" and "tests \<noteq> []"
  shows "\<exists>errs tests'. check_tests (JList tests) = Inr (errs, JList tests')
           \<and> tests' \<noteq> [] \<and> list_all typed_item tests'
           \<and> map endpoint_of tests' = map endpoint_of tests"
proof -
  from for_enumerate_typed [of check_test tests 0, OF check_test_typed assms(1)]
  obtain errs xs' where
    r: "for_enumerate check_test 0 tests = Inr (errs, xs')" "list_all typed_item xs'"
       "map endpoint_of xs' = map endpoint_of tests"
    by blast
  from r(3) assms(2) have "xs' \<noteq> []" by auto
  with r assms(2) show ?thesis
    by (simp add: check_tests_def)
qed

lemma cross_reference_finds:
  assumes "list_all typed_item schema" and "schema \<noteq> []"
    and "list_all typed_item tests" and "i < length tests"
    and "endpoint_of (tests ! i) = Some (JStr ep)" and "ep \<noteq> []"
    and "Some (JStr ep) \<notin> set (map endpoint_of schema)"
  shows "\<exists>errs. cross_reference (JList schema) (JList tests) = Inr errs
           \<and> NonExistentEndpoint i (JStr ep) \<in> set errs"
proof -
  let ?S = "List.map_filter endpoint_of schema"
  from assms(4) have ne: "tests \<noteq> []" by auto
  from assms(7) have notin: "JStr ep \<notin> set ?S"
    by (auto simp: List.map_filter_def intro: rev_image_eqI)
  from check_refs_typed [OF assms(3), of ?S 0] obtain errs where
    r: "check_refs ?S 0 tests = Inr errs"
    by blast
  from check_refs_finds [OF assms(3,4,5,6) notin r]
  have "NonExistentEndpoint i (JStr ep) \<in> set errs" by simp
  with r ne assms(2) add_endpoints_typed [OF assms(1), of "[]"] show ?thesis
    by (simp add: cross_reference_def)
qed

lemma py_get_update_other:
  "k \<noteq> k' \<Longrightarrow> py_get (AList.update k' v d) k dflt = py_get d k dflt"
  by (simp add: py_get_def update_conv')

lemma py_get_update_same: "py_get (AList.update k v d) k dflt = v"
  by (simp add: py_get_def update_conv')

lemma has_key_update: "has_key d k' \<Longrightarrow> has_key (AList.update k' v d) k = has_key d k"
  by (auto simp: has_key_def update_conv')

lemma other_status_as_ok:
  assumes p: "has_key plan ''status''"
    and r: "py_get plan ''status'' JNull \<noteq> JStr ''reject''"
    and o: "py_get plan ''status'' JNull \<noteq> JStr ''ok''"
  shows "validate_agent1_output plan base_url =
     (case validate_agent1_output (AList.update ''status'' (JStr ''ok'') plan) base_url of
        Inl exn \<Rightarrow> Inl exn
      | Inr (is_valid, errs) \<Rightarrow>
          Inr (False,
               take (length (filter (\<lambda>field. \<not> has_key plan field) required_fields)) errs
               @ [InvalidStatus (py_get plan ''status'' JNull)]
               @ drop (length (filter (\<lambda>field. \<not> has_key plan field) required_fields)) errs))"
  using r o
  by (simp add: validate_agent1_output_def Let_def py_get_update_same py_get_update_other
      has_key_update [OF p] split: sum.splits prod.splits)

text \<open>
  C3, as the code has it. When the status is "reject" the gate returns at once:
  not valid, with the missing-required-field errors collected so far, or with the one
  default message "Schema rejected by AI" when no required field is missing. No check
  of the schema, of the test cases or of the cross references is made, and the errors
  the plan declares are not copied. For any other status that is not "ok" the plan is
  not valid and the list holds the "Invalid status" error whenever the gate returns;
  and when that status is present, the gate makes all the remaining checks as it makes
  them for the same plan with status "ok": it raises where that plan raises, and
  otherwise returns the error list of that plan with the "Invalid status" error put in
  after the missing-required-field errors.
\<close>

theorem reject_short_circuits:
  "(py_get plan ''status'' JNull = JStr ''reject'' \<longrightarrow>
      validate_agent1_output plan base_url =
        Inr (False,
             if list_all (has_key plan) required_fields then [SchemaRejectedByAI]
             else map MissingRequiredField
                    (filter (\<lambda>field. \<not> has_key plan field) required_fields)))
   \<and> (py_get plan ''status'' JNull \<noteq> JStr ''reject'' \<and> py_get plan ''status'' JNull \<noteq> JStr ''ok''
        \<and> validate_agent1_output plan base_url = Inr (is_valid, errs) \<longrightarrow>
      \<not> is_valid \<and> InvalidStatus (py_get plan ''status'' JNull) \<in> set errs)
   \<and> (has_key plan ''status'' \<and> py_get plan ''status'' JNull \<noteq> JStr ''reject''
        \<and> py_get plan ''status'' JNull \<noteq> JStr ''ok'' \<longrightarrow>
      validate_agent1_output plan base_url =
        (case validate_agent1_output (AList.update ''status'' (JStr ''ok'') plan) base_url of
           Inl exn \<Rightarrow> Inl exn
         | Inr (ok_valid, ok_errs) \<Rightarrow>
             Inr (False,
                  take (length (filter (\<lambda>field. \<not> has_key plan field) required_fields)) ok_errs
                  @ [InvalidStatus (py_get plan ''status'' JNull)]
                  @ drop (length (filter (\<lambda>field. \<not> has_key plan field) required_fields))
                      ok_errs)))"
proof -
  have e: "(filter (\<lambda>field. \<not> has_key plan field) required_fields = [])
      = list_all (has_key plan) required_fields"
    by (simp add: filter_empty_conv list_all_iff)
  have 1: "validate_agent1_output plan base_url =
        Inr (False,
             if list_all (has_key plan) required_fields then [SchemaRejectedByAI]
             else map MissingRequiredField
                    (filter (\<lambda>field. \<not> has_key plan field) required_fields))"
    if "py_get plan ''status'' JNull = JStr ''reject''"
    using that e by (simp add: validate_agent1_output_def Let_def)
  have 2: "\<not> is_valid \<and> InvalidStatus (py_get plan ''status'' JNull) \<in> set errs"
    if a: "py_get plan ''status'' JNull \<noteq> JStr ''reject''"
      "py_get plan ''status'' JNull \<noteq> JStr ''ok''"
      "validate_agent1_output plan base_url = Inr (is_valid, errs)"
  proof -
    from a have "InvalidStatus (py_get plan ''status'' JNull) \<in> set errs"
      by (auto simp: validate_agent1_output_def Let_def split: sum.splits)
    moreover from a have "is_valid = (errs = [])"
      by (auto simp: validate_agent1_output_def Let_def split: sum.splits)
    ultimately show ?thesis by auto
  qed
  from 1 2 other_status_as_ok [of plan base_url] show ?thesis by blast
qed

theorem reject_short_circuits_witness:
  "py_get rejected_plan ''status'' JNull = JStr ''reject''
   \<and> validate_agent1_output rejected_plan ''http://api.test'' = Inr (False, [SchemaRejectedByAI])
   \<and> has_key partial_plan ''status''
   \<and> py_get partial_plan ''status'' JNull \<noteq> JStr ''reject''
   \<and> py_get partial_plan ''status'' JNull \<noteq> JStr ''ok''
   \<and> validate_agent1_output partial_plan ''http://api.test''
       = Inr (False, [InvalidStatus (JStr ''partial''), EndpointPathNoSlash ''users'',
                      MissingRequestBody (JStr ''users'') (JStr ''POST''),
                      NonExistentEndpoint 0 (JStr ''/admin'')])"
proof -
  have h1: "py_get rejected_plan ''status'' JNull = JStr ''reject''"
    by code_simp
  have h2: "list_all (has_key rejected_plan) required_fields"
    by code_simp
  have h3: "has_key partial_plan ''status''"
    by code_simp
  have h4: "py_get partial_plan ''status'' JNull = JStr ''partial''"
    by code_simp
  have h5: "filter (\<lambda>field. \<not> has_key partial_plan field) required_fields = []"
    by code_simp
  have h6: "validate_agent1_output (AList.update ''status'' (JStr ''ok'') partial_plan)
              ''http://api.test''
            = Inr (False, [EndpointPathNoSlash ''users'',
                           MissingRequestBody (JStr ''users'') (JStr ''POST''),
                           NonExistentEndpoint 0 (JStr ''/admin'')])"
    by code_simp
  from reject_short_circuits [of rejected_plan "''http://api.test''"] h1 h2
  have a: "validate_agent1_output rejected_plan ''http://api.test''
             = Inr (False, [SchemaRejectedByAI])"
    by simp
  from reject_short_circuits [of partial_plan "''http://api.test''"] h3 h4 h5 h6
  have b: "validate_agent1_output partial_plan ''http://api.test''
       = Inr (False, [InvalidStatus (JStr ''partial''), EndpointPathNoSlash ''users'',
                      MissingRequestBody (JStr ''users'') (JStr ''POST''),
                      NonExistentEndpoint 0 (JStr ''/admin'')])"
    by simp
  from a b h1 h3 h4 show ?thesis
    by simp
qed

text \<open>
  C3, as stated, fails. A plan whose status is present and is neither "ok" nor "reject"
  is checked further: the errors of the schema and of the test cases are in the list.
  And a plan with status "reject" that declares an error of its own gets the default
  message, not the declared error.
\<close>

theorem status_not_ok_counterexample:
  "validate_agent1_output (mk_plan ''error'' [] []) ''http://api.test''
     = Inr (False, [InvalidStatus (JStr ''error''), SchemaEmpty, TestCasesEmpty])
   \<and> py_get rejected_plan ''errors'' JNull = JList [JStr ''schema has no paths'']
   \<and> validate_agent1_output rejected_plan ''http://api.test'' = Inr (False, [SchemaRejectedByAI])"
  by code_simp

text \<open>
  What the cross reference does report. Take a plan whose status is not "reject", whose
  normalized_schema is a non-empty list and whose test_cases is a list, the items of
  both being dicts whose endpoint and method, where present, are strings. If the test
  case at index i has a non-empty endpoint that no item of normalized_schema has as its
  endpoint, the gate returns, the plan is not valid, and the error list holds
  "Test case i references non-existent endpoint" with that endpoint.
\<close>

lemma nonempty_endpoint_named:
  assumes "py_get plan ''status'' JNull \<noteq> JStr ''reject''"
    and "py_get plan ''normalized_schema'' (JList []) = JList schema"
    and "schema \<noteq> []" and "list_all typed_item schema"
    and "py_get plan ''test_cases'' (JList []) = JList tests"
    and "list_all typed_item tests"
    and "i < length tests" and "endpoint_of (tests ! i) = Some (JStr ep)" and "ep \<noteq> []"
    and "Some (JStr ep) \<notin> set (map endpoint_of schema)"
  shows "\<exists>errs. validate_agent1_output plan base_url = Inr (False, errs)
           \<and> NonExistentEndpoint i (JStr ep) \<in> set errs"
proof -
  from assms(7) have ne: "tests \<noteq> []" by auto
  from check_schema_typed [OF assms(4,3)] obtain errs2 schema' where
    s: "check_schema (JList schema) = Inr (errs2, JList schema')" "schema' \<noteq> []"
       "list_all typed_item schema'" "map endpoint_of schema' = map endpoint_of schema"
    by blast
  from check_tests_typed [OF assms(6) ne] obtain errs3 tests' where
    t: "check_tests (JList tests) = Inr (errs3, JList tests')" "tests' \<noteq> []"
       "list_all typed_item tests'" "map endpoint_of tests' = map endpoint_of tests"
    by blast
  from t(4) have len: "length tests' = length tests"
    by (metis length_map)
  with assms(7) have i': "i < length tests'" by simp
  from t(4) assms(7,8) len have ep': "endpoint_of (tests' ! i) = Some (JStr ep)"
    by (metis nth_map)
  from assms(10) s(4) have notin: "Some (JStr ep) \<notin> set (map endpoint_of schema')"
    by simp
  from cross_reference_finds [OF s(3,2) t(3) i' ep' assms(9) notin] obtain errs4 where
    c: "cross_reference (JList schema') (JList tests') = Inr errs4"
       "NonExistentEndpoint i (JStr ep) \<in> set errs4"
    by blast
  from c(2) have "errs4 \<noteq> []" by auto
  with assms(1,2,5) s(1) t(1) c show ?thesis
    by (simp add: validate_agent1_output_def Let_def)
qed

text \<open>
  C5 fails on the code for a test case whose endpoint is falsy. The schema lists the
  one endpoint "/users"; the test case has the empty string as its endpoint (or null),
  which no item of the schema has. Step 4 skips it, because it tests the truth of the
  endpoint before it looks it up, and no other step reports it: the gate accepts the
  plan with an empty error list.
\<close>

theorem falsy_endpoint_accepted:
  "endpoint_of (mk_test (JStr [])) = Some (JStr [])
   \<and> Some (JStr []) \<notin> set (map endpoint_of [users_endpoint])
   \<and> validate_agent1_output (mk_plan ''ok'' [users_endpoint] [mk_test (JStr [])])
         ''http://api.test'' = Inr (True, [])
   \<and> endpoint_of (mk_test JNull) = Some JNull
   \<and> Some JNull \<notin> set (map endpoint_of [users_endpoint])
   \<and> validate_agent1_output (mk_plan ''ok'' [users_endpoint] [mk_test JNull])
         ''http://api.test'' = Inr (True, [])"
  by code_simp

subsection \<open>Base URL\<close>

lemma not_host_char: "\<not> host_char CHR '':''" "\<not> host_char CHR ''/''" "\<not> host_char newline"
  by code_simp+

lemma newline_neq: "newline \<noteq> CHR '':''" "newline \<noteq> CHR ''/''"
  by (simp_all add: newline_def)

lemma not_digit: "\<not> is_digit CHR ''/''" "\<not> is_digit newline"
  by code_simp+

lemma match_tail_iff:
  "match_tail r \<longleftrightarrow>
     (\<exists>path nl. r = path @ nl
        \<and> (path = [] \<or> (\<exists>p. path = CHR ''/'' # p \<and> newline \<notin> set p))
        \<and> (nl = [] \<or> nl = [newline]))"
proof
  assume m: "match_tail r"
  show "\<exists>path nl. r = path @ nl
        \<and> (path = [] \<or> (\<exists>p. path = CHR ''/'' # p \<and> newline \<notin> set p))
        \<and> (nl = [] \<or> nl = [newline])"
  proof (cases r)
    case Nil
    then show ?thesis by simp
  next
    case (Cons c cs)
    show ?thesis
    proof (cases "c = CHR ''/''")
      case False
      with m Cons have "r = [] @ [newline]" by simp
      then show ?thesis by blast
    next
      case True
      with m Cons have b: "newline \<notin> set (butlast cs)" by simp
      show ?thesis
      proof (cases "cs \<noteq> [] \<and> last cs = newline")
        case True
        then have "cs = butlast cs @ [newline]"
          using append_butlast_last_id [of cs] by auto
        then have "r = (CHR ''/'' # butlast cs) @ [newline]"
          using Cons \<open>c = CHR ''/''\<close> by simp
        with b show ?thesis by blast
      next
        case False
        then have "newline \<notin> set cs"
          using b by (cases cs rule: rev_cases) auto
        moreover have "r = (CHR ''/'' # cs) @ []"
          using Cons \<open>c = CHR ''/''\<close> by simp
        ultimately show ?thesis by blast
      qed
    qed
  qed
next
  assume "\<exists>path nl. r = path @ nl
        \<and> (path = [] \<or> (\<exists>p. path = CHR ''/'' # p \<and> newline \<notin> set p))
        \<and> (nl = [] \<or> nl = [newline])"
  then obtain path nl where r: "r = path @ nl"
    and p: "path = [] \<or> (\<exists>p. path = CHR ''/'' # p \<and> newline \<notin> set p)"
    and n: "nl = [] \<or> nl = [newline]"
    by blast
  from p show "match_tail r"
  proof
    assume "path = []"
    with r n show ?thesis by auto
  next
    assume "\<exists>p. path = CHR ''/'' # p \<and> newline \<notin> set p"
    then obtain q where "path = CHR ''/'' # q" "newline \<notin> set q" by blast
    with r n show ?thesis by (auto simp: butlast_append dest: in_set_butlastD)
  qed
qed


lemma takeWhile_stop:
  "list_all P xs \<Longrightarrow> ys = [] \<or> \<not> P (hd ys) \<Longrightarrow> takeWhile P (xs @ ys) = xs"
  by (cases ys) (auto simp: list_all_iff)

lemma dropWhile_stop:
  "list_all P xs \<Longrightarrow> ys = [] \<or> \<not> P (hd ys) \<Longrightarrow> dropWhile P (xs @ ys) = ys"
  by (cases ys) (auto simp: list_all_iff)

lemma match_port_tail_iff:
  "match_port_tail r \<longleftrightarrow>
     (\<exists>port t. r = port @ t
        \<and> (port = [] \<or> (\<exists>ds. port = CHR '':'' # ds \<and> ds \<noteq> [] \<and> list_all is_digit ds))
        \<and> match_tail t)"
proof
  assume m: "match_port_tail r"
  show "\<exists>port t. r = port @ t
        \<and> (port = [] \<or> (\<exists>ds. port = CHR '':'' # ds \<and> ds \<noteq> [] \<and> list_all is_digit ds))
        \<and> match_tail t"
  proof (cases r)
    case Nil
    then show ?thesis by simp
  next
    case (Cons c cs)
    show ?thesis
    proof (cases "c = CHR '':''")
      case False
      with m Cons have "r = [] @ r \<and> match_tail r" by simp
      then show ?thesis by blast
    next
      case True
      let ?ds = "takeWhile is_digit cs"
      from m Cons True have d: "?ds \<noteq> []" and t: "match_tail (dropWhile is_digit cs)"
        by simp_all
      have "r = (CHR '':'' # ?ds) @ dropWhile is_digit cs"
        using Cons True by simp
      moreover have "list_all is_digit ?ds"
        by (auto simp: list_all_iff dest: set_takeWhileD)
      ultimately show ?thesis using d t by blast
    qed
  qed
next
  assume "\<exists>port t. r = port @ t
        \<and> (port = [] \<or> (\<exists>ds. port = CHR '':'' # ds \<and> ds \<noteq> [] \<and> list_all is_digit ds))
        \<and> match_tail t"
  then obtain port t where r: "r = port @ t"
    and p: "port = [] \<or> (\<exists>ds. port = CHR '':'' # ds \<and> ds \<noteq> [] \<and> list_all is_digit ds)"
    and t: "match_tail t"
    by blast
  have stop: "t = [] \<or> \<not> is_digit (hd t)"
    using t not_digit by (cases t) (auto split: if_splits)
  from p show "match_port_tail r"
  proof
    assume "port = []"
    with r t newline_neq show ?thesis
      by (cases t) (auto split: if_splits)
  next
    assume "\<exists>ds. port = CHR '':'' # ds \<and> ds \<noteq> [] \<and> list_all is_digit ds"
    then obtain ds where ds: "port = CHR '':'' # ds" "ds \<noteq> []" "list_all is_digit ds"
      by blast
    with r t stop show ?thesis
      by (simp add: takeWhile_stop dropWhile_stop)
  qed
qed

lemma strip_scheme_iff:
  "strip_scheme s = Some r \<longleftrightarrow> (s = ''http://'' @ r \<or> s = ''https://'' @ r)"
proof
  assume "strip_scheme s = Some r"
  then show "s = ''http://'' @ r \<or> s = ''https://'' @ r"
    by (auto simp: strip_scheme_def prefix_def split: if_splits)
next
  assume "s = ''http://'' @ r \<or> s = ''https://'' @ r"
  then show "strip_scheme s = Some r"
    by (auto simp: strip_scheme_def)
qed

lemma match_base_url_iff: "match_base_url s \<longleftrightarrow> s \<in> base_url_language"
proof
  assume m: "match_base_url s"
  then obtain r where r: "strip_scheme s = Some r"
    and h: "takeWhile host_char r \<noteq> []" and pt: "match_port_tail (dropWhile host_char r)"
    by (auto simp: match_base_url_def split: option.splits)
  let ?host = "takeWhile host_char r"
  from pt obtain port t where
    pt': "dropWhile host_char r = port @ t"
      "port = [] \<or> (\<exists>ds. port = CHR '':'' # ds \<and> ds \<noteq> [] \<and> list_all is_digit ds)"
      "match_tail t"
    unfolding match_port_tail_iff by blast
  from pt'(3) obtain path nl where
    t: "t = path @ nl" "path = [] \<or> (\<exists>p. path = CHR ''/'' # p \<and> newline \<notin> set p)"
       "nl = [] \<or> nl = [newline]"
    unfolding match_tail_iff by blast
  have "r = ?host @ port @ path @ nl"
    using takeWhile_dropWhile_id [of host_char r] pt'(1) t(1) by simp
  moreover have "list_all host_char ?host"
    by (auto simp: list_all_iff dest: set_takeWhileD)
  moreover from r have "s = ''http'' @ ''://'' @ r \<or> s = ''https'' @ ''://'' @ r"
    by (simp add: strip_scheme_iff)
  ultimately show "s \<in> base_url_language"
    unfolding base_url_language_def using h pt'(2) t(2,3) by blast
next
  assume "s \<in> base_url_language"
  then obtain scheme host port path nl where
    s: "s = scheme @ ''://'' @ host @ port @ path @ nl"
    and sc: "scheme = ''http'' \<or> scheme = ''https''"
    and h: "host \<noteq> []" "list_all host_char host"
    and p: "port = [] \<or> (\<exists>ds. port = CHR '':'' # ds \<and> ds \<noteq> [] \<and> list_all is_digit ds)"
    and pa: "path = [] \<or> (\<exists>p. path = CHR ''/'' # p \<and> newline \<notin> set p)"
    and n: "nl = [] \<or> nl = [newline]"
    unfolding base_url_language_def by blast
  let ?rest = "port @ path @ nl"
  from s sc have r: "strip_scheme s = Some (host @ ?rest)"
    by (auto simp: strip_scheme_iff)
  have stop: "?rest = [] \<or> \<not> host_char (hd ?rest)"
    using p pa n not_host_char by auto
  have mt: "match_tail (path @ nl)"
    unfolding match_tail_iff using pa n by blast
  have "match_port_tail ?rest"
    unfolding match_port_tail_iff using p mt by blast
  with r h stop show "match_base_url s"
    by (simp add: match_base_url_def takeWhile_stop dropWhile_stop)
qed

lemma prefix_rstrip_slash: "prefix (rstrip_slash s) s"
proof -
  have "rev s = takeWhile (\<lambda>c. c = CHR ''/'') (rev s) @ dropWhile (\<lambda>c. c = CHR ''/'') (rev s)"
    by simp
  then have "s = rstrip_slash s @ rev (takeWhile (\<lambda>c. c = CHR ''/'') (rev s))"
    unfolding rstrip_slash_def by (metis rev_append rev_rev_ident)
  then show ?thesis by (metis prefixI)
qed

lemma validate_base_url_scheme:
  assumes "validate_base_url u"
  shows "prefix ''http://'' u \<or> prefix ''https://'' u"
proof -
  from assms have "match_base_url (rstrip_slash u)"
    by (simp add: validate_base_url_def split: if_splits)
  then obtain r where "strip_scheme (rstrip_slash u) = Some r"
    by (auto simp: match_base_url_def split: option.splits)
  then have "prefix ''http://'' (rstrip_slash u) \<or> prefix ''https://'' (rstrip_slash u)"
    by (auto simp: strip_scheme_def split: if_splits)
  with prefix_rstrip_slash [of u] show ?thesis
    by (meson prefix_order.trans)
qed


text \<open>
  C6, as the code has it. The gate never reads the base URL: it returns the same for
  any two base URLs. The base URL is checked by the separate predicate
  validate_base_url, which holds exactly for the non-empty strings that, once the
  trailing slashes are removed, have the form scheme://host[:port][/path] of the
  pattern; so it is false for every base URL that starts with neither http:// nor
  https://.
\<close>

theorem base_url_checked_apart:
  "validate_agent1_output plan base_url = validate_agent1_output plan base_url'
   \<and> (validate_base_url base_url \<longleftrightarrow>
        base_url \<noteq> [] \<and> rstrip_slash base_url \<in> base_url_language)
   \<and> (\<not> (prefix ''http://'' base_url \<or> prefix ''https://'' base_url) \<longrightarrow>
        \<not> validate_base_url base_url)"
proof (intro conjI)
  show "validate_agent1_output plan base_url = validate_agent1_output plan base_url'"
    by (simp add: validate_agent1_output_def)
next
  show "validate_base_url base_url \<longleftrightarrow>
        base_url \<noteq> [] \<and> rstrip_slash base_url \<in> base_url_language"
    by (simp add: validate_base_url_def match_base_url_iff)
next
  show "\<not> (prefix ''http://'' base_url \<or> prefix ''https://'' base_url) \<longrightarrow>
        \<not> validate_base_url base_url"
    using validate_base_url_scheme by blast
qed

theorem base_url_checked_apart_witness:
  "\<not> (prefix ''http://'' ''ftp://example.com'' \<or> prefix ''https://'' ''ftp://example.com'')
   \<and> \<not> validate_base_url ''ftp://example.com''"
proof -
  have h: "\<not> (prefix ''http://'' ''ftp://example.com'' \<or> prefix ''https://'' ''ftp://example.com'')"
    by code_simp
  with base_url_checked_apart [of good_plan "''ftp://example.com''" "''ftp://example.com''"]
  show ?thesis by blast
qed

text \<open>
  C6, as stated, fails: with the base URL ftp://example.com, whose scheme is neither
  http nor https, the gate accepts a well-formed plan and returns no error.
\<close>

theorem base_url_ignored_counterexample:
  "validate_agent1_output good_plan ''ftp://example.com'' = Inr (True, [])"
  by code_simp

subsection \<open>Plan content hash\<close>

lemma keys_sort_key:
  assumes "distinct (map fst a)" "distinct (map fst b)" "set (map fst a) = set (map fst b)"
  shows "map fst (sort_key fst (a :: (string \<times> 'v) list))
           = map fst (sort_key fst (b :: (string \<times> 'v) list))"
proof -
  have d: "distinct (map fst (sort_key fst x))" if "distinct (map fst x)"
    for x :: "(string \<times> 'v) list"
    using that by (simp add: distinct_map)
  have "set (map fst (sort_key fst a)) = set (map fst (sort_key fst b))"
    using assms(3) by simp
  then show ?thesis
    using sorted_distinct_set_unique [of "map fst (sort_key fst a)" "map fst (sort_key fst b)"]
      d [OF assms(1)] d [OF assms(2)]
    by simp
qed

lemma dumps_sorted_equiv:
  "json_equiv x y \<Longrightarrow> dumps_sorted fr x = dumps_sorted fr y"
proof (induction x arbitrary: y)
  case (JList xs)
  then obtain ys where y: "y = JList ys" and l: "list_all2 json_equiv xs ys"
    by (cases y) auto
  have "map (dumps_sorted fr) xs = map (dumps_sorted fr) ys"
    using l JList.IH
    by (induction xs ys rule: list_all2_induct) auto
  with y show ?case by simp
next
  case (JDict a)
  then obtain b where y: "y = JDict b"
    and da: "distinct (map fst a)" and db: "distinct (map fst b)"
    and ks: "set (map fst a) = set (map fst b)"
    and vs: "list_all (\<lambda>(k, v). case map_of b k of None \<Rightarrow> False | Some w \<Rightarrow> json_equiv v w) a"
    by (cases y) auto
  let ?sa = "sort_key fst a" and ?sb = "sort_key fst b"
  let ?f = "\<lambda>(k, v). encode_str k @ '': '' @ dumps_sorted fr v"
  have keys: "map fst ?sa = map fst ?sb"
    by (rule keys_sort_key [OF da db ks])
  then have len: "length ?sa = length ?sb"
    by (metis length_map)
  have "map ?f ?sa = map ?f ?sb"
  proof (rule nth_equalityI)
    show "length (map ?f ?sa) = length (map ?f ?sb)"
      using len by simp
  next
    fix i assume "i < length (map ?f ?sa)"
    then have i: "i < length ?sa" "i < length ?sb"
      using len by simp_all
    obtain k v where kv: "?sa ! i = (k, v)" by (cases "?sa ! i")
    obtain k' w where kw: "?sb ! i = (k', w)" by (cases "?sb ! i")
    from keys i kv kw have k: "k' = k"
      by (metis fst_conv nth_map)
    from i kv have ina: "(k, v) \<in> set a"
      by (metis nth_mem set_sort)
    from i kw k have inb: "(k, w) \<in> set b"
      by (metis nth_mem set_sort)
    from inb db have "map_of b k = Some w"
      by simp
    with vs ina have e: "json_equiv v w"
      by (auto simp: list_all_iff)
    from ina have "v \<in> Basic_BNFs.snds (k, v)" "(k, v) \<in> set a"
      by simp_all
    with JDict.IH e have "dumps_sorted fr v = dumps_sorted fr w"
      by blast
    with i kv kw k show "map ?f ?sa ! i = map ?f ?sb ! i"
      by simp
  qed
  with y show ?case by simp
qed (auto elim: json_equiv.elims)

text \<open>
  C10. The hash is a function of its arguments, so repeated calls on the same input
  give the same digest. The order in which the keys of the schema were inserted, at
  any depth, does not change it: two schemas that are equal as dicts serialize to the
  same text under sort_keys, and the digest is taken of that text followed by the
  base URL.
\<close>

theorem schema_hash_key_order_independent:
  "json_equiv (JDict schema) (JDict schema') \<Longrightarrow>
     calculate_schema_hash float_repr sha256_hexdigest schema base_url
       = calculate_schema_hash float_repr sha256_hexdigest schema' base_url"
  unfolding calculate_schema_hash_def Let_def
  by (simp only: dumps_sorted_equiv [of "JDict schema" "JDict schema'" float_repr])

theorem schema_hash_key_order_independent_witness:
  "json_equiv (JDict schema_a) (JDict schema_b) \<and> schema_a \<noteq> schema_b
   \<and> calculate_schema_hash (\<lambda>r. ''0.0'') (\<lambda>s. s) schema_a ''http://api.test''
       = calculate_schema_hash (\<lambda>r. ''0.0'') (\<lambda>s. s) schema_b ''http://api.test''"
proof -
  have h: "json_equiv (JDict schema_a) (JDict schema_b)"
    by code_simp
  have n: "schema_a \<noteq> schema_b"
    by (simp add: schema_a_def schema_b_def)
  from schema_hash_key_order_independent [OF h] h n show ?thesis
    by blast
qed

subsection \<open>Failure enrichment\<close>

lemma length_analyze_failures_batch:
  "length (analyze_failures_batch A n fds) = length fds"
  by (induction fds arbitrary: n) simp_all

lemma length_store_analyses: "length (store_analyses rows as) = length rows"
  by (induction rows as rule: store_analyses.induct) (simp_all split: list.splits)

lemma batch_endpoint:
  "analyze_failures_batch A n (fd # fds) = a # as \<Longrightarrow>
     py_get a ''endpoint'' JNull = py_get fd ''endpoint'' JNull
     \<and> py_get a ''test_type'' JNull = py_get fd ''test_type'' JNull"
  by (auto simp: py_get_def update_conv' split: option.splits)

lemma cached_after_store:
  "list_all (\<lambda>f. root_cause f = JNull) rows \<Longrightarrow>
     map cached_analysis
       (store_analyses rows (analyze_failures_batch A n (map failure_data rows)))
     = map stored_view (analyze_failures_batch A n (map failure_data rows))"
proof (induction rows arbitrary: n)
  case Nil
  then show ?case by simp
next
  case (Cons row rows)
  obtain a as where b: "analyze_failures_batch A n (map failure_data (row # rows)) = a # as"
    by (cases "analyze_failures_batch A n (map failure_data (row # rows))") simp_all
  then have as: "as = analyze_failures_batch A (Suc n) (map failure_data rows)"
    by simp
  from b have "py_get a ''endpoint'' JNull = py_get (failure_data row) ''endpoint'' JNull
     \<and> py_get a ''test_type'' JNull = py_get (failure_data row) ''test_type'' JNull"
    using batch_endpoint [of A n "failure_data row" "map failure_data rows" a as] by simp
  then have e: "py_get a ''endpoint'' JNull = JStr (f_endpoint row)"
    "py_get a ''test_type'' JNull = JStr (f_test_type row)"
    by (simp_all add: failure_data_def py_get_def)
  from Cons.prems have r: "root_cause row = JNull" and rs: "list_all (\<lambda>f. root_cause f = JNull) rows"
    by simp_all
  have "cached_analysis
          (row\<lparr>root_cause := py_get a ''root_cause'' (JStr []),
               risk_level := py_get a ''risk_level'' (JStr ''medium''),
               fix_suggestion := py_get a ''fix_suggestion'' (JStr [])\<rparr>)
        = stored_view a"
    using e by (simp add: cached_analysis_def stored_view_def)
  moreover have "map cached_analysis (store_analyses rows as) = map stored_view as"
    unfolding as by (rule Cons.IH [OF rs])
  ultimately show ?case
    unfolding b using r by simp
qed

lemma filter_all: "list_all P xs \<Longrightarrow> filter P xs = xs"
  by (induction xs) simp_all

lemma with_agent2_cases:
  "analyze_failures_with_agent2 A k w = (res, w') \<Longrightarrow>
     (w' = w \<and> (res = Inl () \<or> res = Inr NothingToAnalyze))
     \<or> (\<exists>batch as. batch \<noteq> [] \<and> batch = map failure_data (filter (\<lambda>f. root_cause f = JNull) (failures w))
           \<and> as = analyze_failures_batch A (length (concat (analyzer_calls w))) batch
           \<and> res = Inr (AnalyzedResult (min (length as) (length batch)) (length batch) as)
           \<and> w' = w\<lparr>agent2_called := True, failures := store_analyses (failures w) as,
                      analyzer_calls := analyzer_calls w @ [batch]\<rparr>)"
  by (auto simp: analyze_failures_with_agent2_def Let_def split: if_splits)

lemma analyze_failures_cases:
  assumes "analyze_failures A k w = (r, w')"
  shows "(w' = w \<and> (\<forall>n t as. r \<noteq> Analyzed (AnalyzedResult n t as)))
     \<or> (failures w \<noteq> [] \<and> \<not> agent2_called w
         \<and> (\<exists>batch as. batch = map failure_data (filter (\<lambda>f. root_cause f = JNull) (failures w))
           \<and> as = analyze_failures_batch A (length (concat (analyzer_calls w))) batch
           \<and> r = Analyzed (AnalyzedResult (min (length as) (length batch)) (length batch) as)
           \<and> w' = w\<lparr>agent2_called := True, failures := store_analyses (failures w) as,
                      analyzer_calls := analyzer_calls w @ [batch]\<rparr>))"
proof (cases "failures w = [] \<or> agent2_called w")
  case True
  with assms show ?thesis
    by (auto simp: analyze_failures_def split: if_splits)
next
  case False
  obtain res w'' where c: "analyze_failures_with_agent2 A k w = (res, w'')"
    by (cases "analyze_failures_with_agent2 A k w")
  from with_agent2_cases [OF c] c assms False show ?thesis
    by (auto simp: analyze_failures_def)
qed

lemma analyze_failures_cached:
  "agent2_called w \<Longrightarrow> failures w \<noteq> [] \<Longrightarrow>
     analyze_failures A k w = (Cached (map cached_analysis (failures w)), w)"
  by (simp add: analyze_failures_def)

text \<open>
  C8. Two invocations of the enrichment step on the same run, one after the other:
  (1) together they invoke the Analyzer at most once; (2) if the first one invoked it,
  the flag agent2_called is set afterwards, and the second one returns the analyses
  stored in the rows, invokes nothing and leaves the store as it is; (3) if the first
  one analysed the whole failure set of the run, the analyses the second one returns
  are those the first one returned: the same endpoint, test type, root cause, risk
  level and fix suggestion for every failure, in the same order.
\<close>

theorem enrichment_idempotent:
  assumes "analyze_failures A key_ok w = (r1, w1)"
    and "analyze_failures A key_ok w1 = (r2, w2)"
  shows "(\<exists>extra. analyzer_calls w2 = analyzer_calls w @ extra \<and> length extra \<le> 1)
    \<and> (analyzer_calls w1 \<noteq> analyzer_calls w \<longrightarrow>
          agent2_called w1 \<and> r2 = Cached (map cached_analysis (failures w1)) \<and> w2 = w1)
    \<and> (\<forall>n t as. r1 = Analyzed (AnalyzedResult n t as)
          \<and> list_all (\<lambda>f. root_cause f = JNull) (failures w) \<longrightarrow>
          r2 = Cached (map stored_view as))"
proof -
  from analyze_failures_cases [OF assms(1)]
  show ?thesis
  proof
    assume same: "w1 = w \<and> (\<forall>n t as. r1 \<noteq> Analyzed (AnalyzedResult n t as))"
    with assms have "(r2, w2) = (r1, w1)"
      by simp
    with same have "w2 = w" "w1 = w"
      by simp_all
    then show ?thesis
      using same by simp
  next
    assume "failures w \<noteq> [] \<and> \<not> agent2_called w
         \<and> (\<exists>batch as. batch = map failure_data (filter (\<lambda>f. root_cause f = JNull) (failures w))
           \<and> as = analyze_failures_batch A (length (concat (analyzer_calls w))) batch
           \<and> r1 = Analyzed (AnalyzedResult (min (length as) (length batch)) (length batch) as)
           \<and> w1 = w\<lparr>agent2_called := True, failures := store_analyses (failures w) as,
                      analyzer_calls := analyzer_calls w @ [batch]\<rparr>)"
    then obtain batch as where ne: "failures w \<noteq> []"
      and batch: "batch = map failure_data (filter (\<lambda>f. root_cause f = JNull) (failures w))"
      and as: "as = analyze_failures_batch A (length (concat (analyzer_calls w))) batch"
      and r1: "r1 = Analyzed (AnalyzedResult (min (length as) (length batch)) (length batch) as)"
      and w1: "w1 = w\<lparr>agent2_called := True, failures := store_analyses (failures w) as,
                      analyzer_calls := analyzer_calls w @ [batch]\<rparr>"
      by blast
    from w1 have flag: "agent2_called w1" and calls: "analyzer_calls w1 = analyzer_calls w @ [batch]"
      and rows: "failures w1 = store_analyses (failures w) as"
      by simp_all
    from rows ne have ne1: "failures w1 \<noteq> []"
      by (metis length_0_conv length_store_analyses)
    have "analyze_failures A key_ok w1 = (Cached (map cached_analysis (failures w1)), w1)"
      by (rule analyze_failures_cached [OF flag ne1])
    with assms(2) have second: "r2 = Cached (map cached_analysis (failures w1))" "w2 = w1"
      by auto
    have same: "r2 = Cached (map stored_view as)"
      if "list_all (\<lambda>f. root_cause f = JNull) (failures w)"
    proof -
      from that batch have "batch = map failure_data (failures w)"
        by (simp add: filter_all)
      with as rows second(1) cached_after_store [OF that] show ?thesis
        by simp
    qed
    from second calls flag same r1 show ?thesis
      by auto
  qed
qed


theorem enrichment_idempotent_witness:
  "analyzer_calls (snd first_call) \<noteq> analyzer_calls sample_world
   \<and> list_all (\<lambda>f. root_cause f = JNull) (failures sample_world)
   \<and> fst first_call = Analyzed (AnalyzedResult 2 2 first_analyses)
   \<and> agent2_called (snd first_call)
   \<and> fst second_call = Cached (map stored_view first_analyses)
   \<and> snd second_call = snd first_call
   \<and> length (analyzer_calls (snd second_call)) = 1"
proof -
  have a1: "analyze_failures sample_analyzer True sample_world = (fst first_call, snd first_call)"
    by (simp add: first_call_def)
  have a2: "analyze_failures sample_analyzer True (snd first_call)
        = (fst second_call, snd second_call)"
    by (simp add: second_call_def)
  have h1: "analyzer_calls (snd first_call) \<noteq> analyzer_calls sample_world"
    by code_simp
  have h2: "list_all (\<lambda>f. root_cause f = JNull) (failures sample_world)"
    by code_simp
  have h3: "fst first_call = Analyzed (AnalyzedResult 2 2 first_analyses)"
    by code_simp
  have h4: "length (analyzer_calls (snd first_call)) = 1"
    by code_simp
  from enrichment_idempotent [OF a1 a2] h1 h2 h3
  have "agent2_called (snd first_call)
      \<and> fst second_call = Cached (map stored_view first_analyses)
      \<and> snd second_call = snd first_call"
    by blast
  with h1 h2 h3 h4 show ?thesis
    by simp
qed

end
